theory Spec2Isabelle
  imports Main
begin

section \<open>Data model\<close>

text \<open>
  The relational tables of the Kanban backend, as the route handlers of
  \<^verbatim>\<open>backend/src/routes.ts\<close> and \<^verbatim>\<open>backend/src/auth/routes.ts\<close> read and write them.
  A table is the list of its rows in creation order; a primary key is a string.
  Points in time are milliseconds, as \<^verbatim>\<open>Date.now()\<close> gives them.
\<close>

datatype ColumnId = BACKLOG | HIGH_PRIORITY | TODO | IN_PROGRESS | READY_FOR_ACCEPTANCE | DONE

datatype Role = ADMIN | MEMBER

text \<open>
  What the error handler of the application turns into a response: a \<^verbatim>\<open>ZodError\<close>
  (status 400, "Validation error"), an \<^verbatim>\<open>HttpError\<close> with its status and message, and
  anything else (status 500, "Internal server error").
\<close>

datatype error = ZodError | HttpError nat string | InternalError

fun status :: "error \<Rightarrow> nat" where
  "status ZodError = 400"
| "status (HttpError s m) = s"
| "status InternalError = 500"

text \<open>
  A row of \<^verbatim>\<open>Card\<close>. The columns that no check of the handlers below reads and no
  position write touches (details, assignee, due date, importance, paused,
  \<^verbatim>\<open>createdAt\<close>) are left out. \<^verbatim>\<open>updatedAt\<close> has no default in the database: Prisma
  stamps it with the time of the write on every \<^verbatim>\<open>create\<close> and every \<^verbatim>\<open>update\<close> of the
  row.
\<close>

record card =
  cardId :: string
  boardId :: string
  description :: string
  column :: ColumnId
  position :: int
  authorId :: "string option"
  updatedAt :: int

text \<open>
  A row of \<^verbatim>\<open>User\<close>, without the avatar columns and the two timestamps, which no check
  below reads.
\<close>

record user =
  userId :: string
  email :: string
  name :: string
  role :: Role
  isSystem :: bool
  passwordHash :: string
  mustChangePassword :: bool
  totpEnabled :: bool
  totpSecret :: "string option"
  totpTempSecret :: "string option"
  defaultBoardId :: "string option"

record trustedDevice =
  tdUserId :: string
  tokenHash :: string
  expiresAt :: int
  lastUsedAt :: int

record passwordResetToken =
  prtId :: string
  prtUserId :: string
  prtTokenHash :: string
  prtExpiresAt :: int
  usedAt :: "int option"

text \<open>The \<^verbatim>\<open>SessionData\<close> of \<^verbatim>\<open>auth/session.ts\<close>: every field is optional.\<close>

record sessionData =
  sessUser :: "string option"
  twoFactorPassed :: "bool option"
  sessBoardId :: "string option"

record db =
  users :: "user list"
  boards :: "string list"
  memberships :: "(string \<times> string) list"
  cards :: "card list"
  participants :: "(string \<times> string) list"
  trustedDevices :: "trustedDevice list"
  passwordResetTokens :: "passwordResetToken list"
  sessions :: "(string \<times> sessionData) list"

section \<open>Card ordering engine\<close>

text \<open>\<^verbatim>\<open>clamp(n, min, max)\<close> of \<^verbatim>\<open>routes.ts\<close>: \<^verbatim>\<open>Math.max(min, Math.min(max, n))\<close>.\<close>

definition clamp :: "int \<Rightarrow> int \<Rightarrow> int \<Rightarrow> int" where
  "clamp n mn mx = max mn (min mx n)"

text \<open>
  \<^verbatim>\<open>prisma.card.findMany({ where: { boardId, column }, orderBy: { position: "asc" } })\<close>:
  the rows of one (board, column) partition by ascending position. Rows of equal
  position come in table order.
\<close>

definition cardsIn :: "card list \<Rightarrow> string \<Rightarrow> ColumnId \<Rightarrow> card list" where
  "cardsIn cs b col = sort_key position (filter (\<lambda>c. boardId c = b \<and> column c = col) cs)"

definition idsIn :: "card list \<Rightarrow> string \<Rightarrow> ColumnId \<Rightarrow> string list" where
  "idsIn cs b col = map cardId (cardsIn cs b col)"

text \<open>\<^verbatim>\<open>prisma.card.findFirst({ where: { id, boardId } })\<close>.\<close>

definition findCard :: "card list \<Rightarrow> string \<Rightarrow> string \<Rightarrow> card option" where
  "findCard cs i b = find (\<lambda>c. cardId c = i \<and> boardId c = b) cs"

text \<open>
  \<^verbatim>\<open>prisma.card.update({ where: { id }, data })\<close>: the row of that id is rewritten;
  the call throws when there is no such row.
\<close>

definition card_update :: "string \<Rightarrow> (card \<Rightarrow> card) \<Rightarrow> card list \<Rightarrow> card list option" where
  "card_update i f cs =
     (if i \<in> set (map cardId cs)
      then Some (map (\<lambda>c. if cardId c = i then f c else c) cs)
      else None)"

text \<open>
  \<^verbatim>\<open>prisma.$transaction([...])\<close>: the writes run in order; the first one that throws
  aborts the whole batch, and nothing is written.
\<close>

fun transaction :: "('s \<Rightarrow> 's option) list \<Rightarrow> 's \<Rightarrow> 's option" where
  "transaction [] s = Some s"
| "transaction (w # ws) s = (case w s of None \<Rightarrow> None | Some s' \<Rightarrow> transaction ws s')"

text \<open>\<^verbatim>\<open>ids.map((cardId, position) => prisma.card.update(...))\<close> with the data \<open>f position cardId\<close>.\<close>

definition positionWrites :: "(nat \<Rightarrow> string \<Rightarrow> card \<Rightarrow> card) \<Rightarrow> string list \<Rightarrow> (card list \<Rightarrow> card list option) list" where
  "positionWrites f ids = map (\<lambda>(pos, i). card_update i (f pos i)) (enumerate 0 ids)"

text \<open>
  The data \<^verbatim>\<open>{ position }\<close> of one such update: the row also gets its \<^verbatim>\<open>updatedAt\<close>.
  The clock \<open>now\<close> gives the time Prisma stamps a write with, by the place of the write
  in its batch: whether the writes of one batch get one time or several is left open.
\<close>

definition setPosition :: "(nat \<Rightarrow> int) \<Rightarrow> nat \<Rightarrow> string \<Rightarrow> card \<Rightarrow> card" where
  "setPosition now pos i c = c\<lparr>position := int pos, updatedAt := now pos\<rparr>"

text \<open>The data of the destination rewrite: the moved card also gets its new column.\<close>

definition setPositionColumn ::
  "(nat \<Rightarrow> int) \<Rightarrow> string \<Rightarrow> ColumnId \<Rightarrow> nat \<Rightarrow> string \<Rightarrow> card \<Rightarrow> card" where
  "setPositionColumn now moved toColumn pos i c =
     (if i = moved then c\<lparr>column := toColumn, position := int pos, updatedAt := now pos\<rparr>
      else c\<lparr>position := int pos, updatedAt := now pos\<rparr>)"

text \<open>\<^verbatim>\<open>ids.splice(idx, 0, id)\<close> after \<^verbatim>\<open>idx = clamp(toIndex, 0, ids.length)\<close>.\<close>

definition insertAt :: "int \<Rightarrow> string \<Rightarrow> string list \<Rightarrow> string list" where
  "insertAt toIndex i ids =
     (let idx = nat (clamp toIndex 0 (int (length ids))) in take idx ids @ i # drop idx ids)"

datatype event = Updated | Moved

record notifyInput =
  nCardId :: string
  nActorId :: string
  nEvent :: event
  nFromColumn :: "ColumnId option"
  nToColumn :: "ColumnId option"

text \<open>
  \<^verbatim>\<open>POST /cards/:id/move\<close> behind the board gate, which has put the session's board
  into \<^verbatim>\<open>req.boardId\<close>. The check of the id is the \<^verbatim>\<open>z.string().uuid()\<close> of the zod
  library, a parameter here; \<^verbatim>\<open>toColumn\<close> has passed \<^verbatim>\<open>z.enum(ColumnIds)\<close>, and
  \<^verbatim>\<open>toIndex\<close> is an integer that \<^verbatim>\<open>min(0)\<close> still has to accept; \<open>now\<close> is the clock
  of the batch of writes of the request. The result is the response, the database after
  the request, and the calls of \<^verbatim>\<open>notifyCardParticipants\<close> the handler has dispatched.
\<close>

definition moveCard ::
  "(string \<Rightarrow> bool) \<Rightarrow> (nat \<Rightarrow> int) \<Rightarrow> string \<Rightarrow> string \<Rightarrow> string \<Rightarrow> ColumnId \<Rightarrow> int \<Rightarrow> db
     \<Rightarrow> (error + unit) \<times> db \<times> notifyInput list" where
  "moveCard isUuid now b actor i toColumn toIndex d =
     (if \<not> isUuid i then (Inl ZodError, d, [])
      else if toIndex < 0 then (Inl ZodError, d, [])
      else case findCard (cards d) i b of
        None \<Rightarrow> (Inl (HttpError 404 ''Card not found''), d, [])
      | Some c \<Rightarrow>
          let fromColumn = column c;
              fromIds = idsIn (cards d) b fromColumn;
              toIds = (if fromColumn = toColumn then fromIds else idsIn (cards d) b toColumn)
          in
          if fromColumn = toColumn then
            (case transaction (positionWrites (setPosition now) (insertAt toIndex i (remove1 i fromIds))) (cards d) of
               None \<Rightarrow> (Inl InternalError, d, [])
             | Some cs \<Rightarrow> (Inr (), d\<lparr>cards := cs\<rparr>, []))
          else
            (let newFrom = remove1 i fromIds;
                 newTo = insertAt toIndex i (remove1 i toIds)
             in case transaction
                  (positionWrites (setPosition now) newFrom
                   @ positionWrites (setPositionColumn (\<lambda>j. now (length newFrom + j)) i toColumn) newTo)
                  (cards d) of
               None \<Rightarrow> (Inl InternalError, d, [])
             | Some cs \<Rightarrow>
                 (Inr (), d\<lparr>cards := cs\<rparr>,
                  [\<lparr>nCardId = i, nActorId = actor, nEvent = Moved,
                    nFromColumn = Some fromColumn, nToColumn = Some toColumn\<rparr>])))"


text \<open>
  \<^verbatim>\<open>prisma.card.aggregate({ where: { boardId, column }, _max: { position: true } })\<close>:
  null on an empty partition.
\<close>

definition maxPosition :: "card list \<Rightarrow> string \<Rightarrow> ColumnId \<Rightarrow> int option" where
  "maxPosition cs b col =
     (case filter (\<lambda>c. boardId c = b \<and> column c = col) cs of
        [] \<Rightarrow> None
      | c # rest \<Rightarrow> Some (fold max (map position rest) (position c)))"

text \<open>The position of a new card: \<^verbatim>\<open>(agg._max.position ?? -1) + 1\<close>.\<close>

definition nextPosition :: "card list \<Rightarrow> string \<Rightarrow> ColumnId \<Rightarrow> int" where
  "nextPosition cs b col = (case maxPosition cs b col of None \<Rightarrow> -1 | Some m \<Rightarrow> m) + 1"

text \<open>
  \<^verbatim>\<open>POST /cards\<close> behind the board gate. The new row's id is the database's fresh
  UUID, an input here; the insert throws on a primary-key clash and when the board of
  the session no longer exists (foreign key). Of the body, \<^verbatim>\<open>description\<close> must be
  non-empty; \<^verbatim>\<open>column\<close> has passed \<^verbatim>\<open>z.enum(ColumnIds)\<close>.
\<close>

definition createCard ::
  "int \<Rightarrow> string \<Rightarrow> string \<Rightarrow> string \<Rightarrow> string \<Rightarrow> ColumnId \<Rightarrow> db \<Rightarrow> (error + card) \<times> db" where
  "createCard now b actor newId descr col d =
     (if descr = [] then (Inl ZodError, d)
      else
        let c = \<lparr>cardId = newId, boardId = b, description = descr, column = col,
                 position = nextPosition (cards d) b col, authorId = Some actor,
                 updatedAt = now\<rparr>
        in if newId \<in> set (map cardId (cards d)) \<or> b \<notin> set (boards d)
           then (Inl InternalError, d)
           else (Inr c, d\<lparr>cards := cards d @ [c]\<rparr>))"

text \<open>
  \<^verbatim>\<open>DELETE /cards/:id\<close> behind the board gate: the row goes, and with it (cascade) its
  participants. No other row is written.
\<close>

definition deleteCard :: "(string \<Rightarrow> bool) \<Rightarrow> string \<Rightarrow> string \<Rightarrow> db \<Rightarrow> (error + unit) \<times> db" where
  "deleteCard isUuid b i d =
     (if \<not> isUuid i then (Inl ZodError, d)
      else case findCard (cards d) i b of
        None \<Rightarrow> (Inl (HttpError 404 ''Card not found''), d)
      | Some c \<Rightarrow>
          (Inr (), d\<lparr>cards := filter (\<lambda>x. cardId x \<noteq> i) (cards d),
                     participants := filter (\<lambda>p. fst p \<noteq> i) (participants d)\<rparr>))"

text \<open>\<^verbatim>\<open>GET /cards/:id\<close> behind the board gate.\<close>

definition getCard :: "(string \<Rightarrow> bool) \<Rightarrow> string \<Rightarrow> string \<Rightarrow> db \<Rightarrow> error + card" where
  "getCard isUuid b i d =
     (if \<not> isUuid i then Inl ZodError
      else case findCard (cards d) i b of
        None \<Rightarrow> Inl (HttpError 404 ''Card not found'')
      | Some c \<Rightarrow> Inr c)"

text \<open>
  \<^verbatim>\<open>notifyCardParticipants\<close>, up to its call of \<^verbatim>\<open>sendEmail\<close>: the addresses the mail
  goes to, or nothing when the card is gone or nobody is left to tell. The rows of
  \<^verbatim>\<open>CardParticipant\<close> are pairs (cardId, userId).
\<close>

definition notifyCardParticipants :: "db \<Rightarrow> notifyInput \<Rightarrow> string list option" where
  "notifyCardParticipants d n =
     (case find (\<lambda>c. cardId c = nCardId n) (cards d) of
        None \<Rightarrow> None
      | Some c \<Rightarrow>
          let us = List.map_filter
                     (\<lambda>p. if fst p = cardId c then find (\<lambda>u. userId u = snd p) (users d) else None)
                     (participants d);
              recipients = filter (\<lambda>e. e \<noteq> [])
                             (map email (filter (\<lambda>u. userId u \<noteq> nActorId n) us))
          in if recipients = [] then None else Some recipients)"

section \<open>Authorization gate\<close>

text \<open>
  The session of a request: the row of the \<^verbatim>\<open>session\<close> table that the signed cookie
  names, or a fresh empty session.
\<close>

definition emptySession :: sessionData where
  "emptySession = \<lparr>sessUser = None, twoFactorPassed = None, sessBoardId = None\<rparr>"

definition loadSession :: "db \<Rightarrow> string \<Rightarrow> sessionData" where
  "loadSession d sid = (case map_of (sessions d) sid of None \<Rightarrow> emptySession | Some s \<Rightarrow> s)"

text \<open>\<^verbatim>\<open>req.session.save\<close>: the row of that session id is written, or inserted.\<close>

definition saveSession :: "string \<Rightarrow> sessionData \<Rightarrow> db \<Rightarrow> db" where
  "saveSession sid s d =
     d\<lparr>sessions := (if sid \<in> set (map fst (sessions d))
                     then map (\<lambda>r. if fst r = sid then (sid, s) else r) (sessions d)
                     else sessions d @ [(sid, s)])\<rparr>"

text \<open>
  An optional string under a test like \<^verbatim>\<open>if (!userId)\<close>: null, undefined and the empty
  string are falsy.
\<close>

definition truthy :: "string option \<Rightarrow> string option" where
  "truthy so = (case so of None \<Rightarrow> None | Some s \<Rightarrow> if s = [] then None else Some s)"

text \<open>The middleware of \<^verbatim>\<open>auth/middleware.ts\<close>.\<close>

definition getAuthUser :: "sessionData \<Rightarrow> db \<Rightarrow> user option" where
  "getAuthUser s d =
     (case truthy (sessUser s) of
        None \<Rightarrow> None
      | Some uid \<Rightarrow> find (\<lambda>u. userId u = uid) (users d))"

definition requireLogin :: "sessionData \<Rightarrow> db \<Rightarrow> error + user" where
  "requireLogin s d =
     (case getAuthUser s d of None \<Rightarrow> Inl (HttpError 401 ''Unauthorized'') | Some u \<Rightarrow> Inr u)"

definition requireTwoFactor :: "sessionData \<Rightarrow> user option \<Rightarrow> error + unit" where
  "requireTwoFactor s uo =
     (case uo of
        None \<Rightarrow> Inl (HttpError 401 ''Unauthorized'')
      | Some u \<Rightarrow>
          if \<not> totpEnabled u then Inl (HttpError 403 ''2FA setup required'')
          else if twoFactorPassed s \<noteq> Some True then Inl (HttpError 401 ''Two-factor required'')
          else Inr ())"

definition requireAdmin :: "user option \<Rightarrow> error + unit" where
  "requireAdmin uo =
     (case uo of
        None \<Rightarrow> Inl (HttpError 401 ''Unauthorized'')
      | Some u \<Rightarrow> if role u \<noteq> ADMIN then Inl (HttpError 403 ''Forbidden'') else Inr ())"

text \<open>\<^verbatim>\<open>requireBoardContext\<close> of \<^verbatim>\<open>routes.ts\<close>; a membership row is (boardId, userId).\<close>

definition requireBoardContext :: "sessionData \<Rightarrow> user \<Rightarrow> db \<Rightarrow> error + string" where
  "requireBoardContext s u d =
     (case truthy (sessBoardId s) of
        None \<Rightarrow> Inl (HttpError 400 ''Board not selected'')
      | Some b \<Rightarrow>
          if role u \<noteq> ADMIN \<and> (b, userId u) \<notin> set (memberships d)
          then Inl (HttpError 403 ''Forbidden'')
          else Inr b)"

text \<open>
  The chain in front of every board and card route:
  \<^verbatim>\<open>router.use(requireLogin(), requireTwoFactor())\<close>, then
  \<^verbatim>\<open>router.use(requireBoardContext())\<close>. It yields the acting user and the board.
\<close>

definition boardGate :: "sessionData \<Rightarrow> db \<Rightarrow> error + (user \<times> string)" where
  "boardGate s d =
     (case requireLogin s d of
        Inl e \<Rightarrow> Inl e
      | Inr u \<Rightarrow>
          (case requireTwoFactor s (Some u) of
             Inl e \<Rightarrow> Inl e
           | Inr _ \<Rightarrow>
               (case requireBoardContext s u d of
                  Inl e \<Rightarrow> Inl e
                | Inr b \<Rightarrow> Inr (u, b))))"

text \<open>The card routes as a client reaches them: the gate on the request's session first.\<close>

definition getCardRoute :: "(string \<Rightarrow> bool) \<Rightarrow> string \<Rightarrow> string \<Rightarrow> db \<Rightarrow> error + card" where
  "getCardRoute isUuid sid i d =
     (case boardGate (loadSession d sid) d of
        Inl e \<Rightarrow> Inl e
      | Inr (u, b) \<Rightarrow> getCard isUuid b i d)"

definition moveCardRoute ::
  "(string \<Rightarrow> bool) \<Rightarrow> (nat \<Rightarrow> int) \<Rightarrow> string \<Rightarrow> string \<Rightarrow> ColumnId \<Rightarrow> int \<Rightarrow> db
     \<Rightarrow> (error + unit) \<times> db \<times> notifyInput list" where
  "moveCardRoute isUuid now sid i toColumn toIndex d =
     (case boardGate (loadSession d sid) d of
        Inl e \<Rightarrow> (Inl e, d, [])
      | Inr (u, b) \<Rightarrow> moveCard isUuid now b (userId u) i toColumn toIndex d)"


section \<open>Login, two-factor and password reset\<close>

text \<open>
  What the handlers take from libraries and from \<^verbatim>\<open>auth/password.ts\<close>, whose code is
  not at hand: the password hash and its check, the TOTP check of \<^verbatim>\<open>otplib\<close> at the time
  of the request (token, then secret), and SHA-256 in hexadecimal.
\<close>

record crypto =
  verifyPassword :: "string \<Rightarrow> string \<Rightarrow> bool"
  hashPassword :: "string \<Rightarrow> string"
  verifyTotp :: "string \<Rightarrow> string \<Rightarrow> bool"
  sha256Hex :: "string \<Rightarrow> string"

text \<open>
  What the handlers take from the JavaScript runtime and, through Prisma, from
  PostgreSQL; none of it is code of the application, so all of it is a parameter:
  \<^verbatim>\<open>String.prototype.trim\<close> and \<^verbatim>\<open>toLowerCase\<close>; \<^verbatim>\<open>decodeURIComponent\<close>, which throws a
  \<^verbatim>\<open>URIError\<close> on a malformed escape (no result); and the rows of \<^verbatim>\<open>User\<close> that the
  database returns for \<^verbatim>\<open>where: { column: { equals: x, mode: "insensitive" } }, take: n\<close>.
  Prisma sends that filter as \<^verbatim>\<open>ILIKE\<close>: the operand is a pattern, in which \<^verbatim>\<open>%\<close>, \<^verbatim>\<open>_\<close> and
  the backslash are special, letters are folded by the collation of the database, a
  pattern can make the query fail (no result), and without \<^verbatim>\<open>orderBy\<close> the database
  chooses which matching rows come first. The last argument is the table, less the rows
  another condition of the query excludes.
\<close>

datatype userColumn = EmailColumn | NameColumn

record platform =
  trim :: "string \<Rightarrow> string"
  toLowerCase :: "string \<Rightarrow> string"
  decodeURIComponent :: "string \<Rightarrow> string option"
  findManyInsensitive :: "userColumn \<Rightarrow> string \<Rightarrow> nat \<Rightarrow> user list \<Rightarrow> user list option"

text \<open>
  \<^verbatim>\<open>prisma.user.findFirst({ where: { column: { equals: x, mode: "insensitive" } } })\<close>;
  a query that fails throws, and the request ends in status 500.
\<close>

definition findFirstInsensitive :: "platform \<Rightarrow> userColumn \<Rightarrow> string \<Rightarrow> user list \<Rightarrow> error + user option" where
  "findFirstInsensitive R col x us =
     (case findManyInsensitive R col x 1 us of
        None \<Rightarrow> Inl InternalError
      | Some rows \<Rightarrow> (case rows of [] \<Rightarrow> Inr None | u # _ \<Rightarrow> Inr (Some u)))"

text \<open>
  The identifier resolution of \<^verbatim>\<open>POST /auth/login\<close>: the alias "admin", then an email,
  then a display name, of which \<^verbatim>\<open>take: 2\<close> matches are fetched.
\<close>

definition resolveLogin :: "platform \<Rightarrow> string \<Rightarrow> db \<Rightarrow> error + user option" where
  "resolveLogin R l d =
     (let normalized = trim R l; lower = toLowerCase R normalized in
      if lower = ''admin''
      then findFirstInsensitive R EmailColumn ''admin@local'' (users d)
      else if CHR ''@'' \<in> set normalized
      then findFirstInsensitive R EmailColumn normalized (users d)
      else case findManyInsensitive R NameColumn normalized 2 (users d) of
             None \<Rightarrow> Inl InternalError
           | Some matches \<Rightarrow>
               if length matches = 1 then Inr (Some (hd matches))
               else if 1 < length matches then Inl (HttpError 400 ''Ambiguous login, use email'')
               else Inr None)"

fun updateFirst :: "('a \<Rightarrow> bool) \<Rightarrow> ('a \<Rightarrow> 'a) \<Rightarrow> 'a list \<Rightarrow> 'a list" where
  "updateFirst P f [] = []"
| "updateFirst P f (x # xs) = (if P x then f x # xs else x # updateFirst P f xs)"

text \<open>
  \<^verbatim>\<open>verifyTrustedDeviceToken\<close> of \<^verbatim>\<open>auth/trustedDevice.ts\<close>: a row of that user with that
  token hash, not yet expired; the row found gets its \<^verbatim>\<open>lastUsedAt\<close> written.
\<close>

definition verifyTrustedDeviceToken :: "crypto \<Rightarrow> string \<Rightarrow> string \<Rightarrow> int \<Rightarrow> db \<Rightarrow> bool \<times> db" where
  "verifyTrustedDeviceToken K uid token now d =
     (let P = (\<lambda>t. tdUserId t = uid \<and> tokenHash t = sha256Hex K token \<and> now < expiresAt t) in
      case find P (trustedDevices d) of
        None \<Rightarrow> (False, d)
      | Some t \<Rightarrow>
          (True, d\<lparr>trustedDevices := updateFirst P (\<lambda>t. t\<lparr>lastUsedAt := now\<rparr>) (trustedDevices d)\<rparr>))"

text \<open>
  \<^verbatim>\<open>issueTrustedDevice\<close>: the random token is an input; its hash is stored for 30 days.
  The column \<^verbatim>\<open>tokenHash\<close> is unique, so the insert of a hash already there throws.
\<close>

definition issueTrustedDevice :: "crypto \<Rightarrow> string \<Rightarrow> string \<Rightarrow> int \<Rightarrow> db \<Rightarrow> db option" where
  "issueTrustedDevice K uid newToken now d =
     (if sha256Hex K newToken \<in> set (map tokenHash (trustedDevices d)) then None
      else Some (d\<lparr>trustedDevices := trustedDevices d @
             [\<lparr>tdUserId = uid, tokenHash = sha256Hex K newToken,
               expiresAt = now + 30 * 24 * 60 * 60 * 1000, lastUsedAt = now\<rparr>]\<rparr>))"

record loginBody =
  login :: string
  password :: string
  totp :: "string option"
  rememberDevice :: bool

record loginResponse =
  respUserId :: string
  respTwoFactorPassed :: bool
  respBoardId :: "string option"
  respTrustCookie :: "string option"

text \<open>\<^verbatim>\<open>String.prototype.split\<close> at one character.\<close>

fun split :: "char \<Rightarrow> string \<Rightarrow> string list" where
  "split sep [] = [[]]"
| "split sep (c # cs) =
     (if c = sep then [] # split sep cs
      else case split sep cs of [] \<Rightarrow> [[c]] | p # ps \<Rightarrow> (c # p) # ps)"

definition COOKIE_NAME :: string where
  "COOKIE_NAME = ''ioterra.2fa_trust''"

text \<open>
  \<^verbatim>\<open>getTrustedDeviceCookie\<close> of \<^verbatim>\<open>auth/trustedDevice.ts\<close> on the \<^verbatim>\<open>Cookie\<close> header of the
  request: the value of the first part named \<^verbatim>\<open>ioterra.2fa_trust\<close>, decoded. Nothing
  catches the error of the decoding.
\<close>

fun cookieOf :: "platform \<Rightarrow> string list \<Rightarrow> error + string option" where
  "cookieOf R [] = Inr None"
| "cookieOf R (p # ps) =
     (if CHR ''='' \<notin> set p then cookieOf R ps
      else if trim R (takeWhile (\<lambda>c. c \<noteq> CHR ''='') p) \<noteq> COOKIE_NAME then cookieOf R ps
      else case decodeURIComponent R (tl (dropWhile (\<lambda>c. c \<noteq> CHR ''='') p)) of
             None \<Rightarrow> Inl InternalError
           | Some v \<Rightarrow> Inr (Some v))"

definition getTrustedDeviceCookie :: "platform \<Rightarrow> string option \<Rightarrow> error + string option" where
  "getTrustedDeviceCookie R header =
     (case truthy header of
        None \<Rightarrow> Inr None
      | Some raw \<Rightarrow> cookieOf R (map (trim R) (split CHR '';'' raw)))"

text \<open>
  The block \<^verbatim>\<open>if (u.totpEnabled) { ... }\<close> of the login handler: it fails, or gives the
  database after it and the trusted-device cookie it has set, if any. The cookie of the
  request is read only when the body carries no code.
\<close>

definition secondFactor ::
  "platform \<Rightarrow> crypto \<Rightarrow> int \<Rightarrow> string \<Rightarrow> string option \<Rightarrow> loginBody \<Rightarrow> user \<Rightarrow> db
     \<Rightarrow> error + (db \<times> string option)" where
  "secondFactor R K now newToken header body u d =
     (if \<not> totpEnabled u then Inr (d, None)
      else case totpSecret u of
        None \<Rightarrow> Inl (HttpError 500 ''2FA misconfigured'')
      | Some secret \<Rightarrow>
          if secret = [] then Inl (HttpError 500 ''2FA misconfigured'')
          else (case truthy (totp body) of
                  Some code \<Rightarrow>
                    if \<not> verifyTotp K code secret then Inl (HttpError 401 ''Invalid 2FA code'')
                    else if rememberDevice body
                    then (case issueTrustedDevice K (userId u) newToken now d of
                            None \<Rightarrow> Inl InternalError
                          | Some d' \<Rightarrow> Inr (d', Some newToken))
                    else Inr (d, None)
                | None \<Rightarrow>
                    (case getTrustedDeviceCookie R header of
                       Inl e \<Rightarrow> Inl e
                     | Inr cookie \<Rightarrow>
                         (case truthy cookie of
                            None \<Rightarrow> Inl (HttpError 401 ''Two-factor required'')
                          | Some token \<Rightarrow>
                              (case verifyTrustedDeviceToken K (userId u) token now d of
                                 (ok, d') \<Rightarrow>
                                   if \<not> ok then Inl (HttpError 401 ''Two-factor required'')
                                   else Inr (d', None))))))"

text \<open>
  The board a fresh session starts on: the user's default board, or else the board of
  their earliest membership, or none.
\<close>

definition initialBoard :: "user \<Rightarrow> db \<Rightarrow> string option" where
  "initialBoard u d =
     (case truthy (defaultBoardId u) of
        Some b \<Rightarrow> Some b
      | None \<Rightarrow>
          (case find (\<lambda>m. snd m = userId u) (memberships d) of
             None \<Rightarrow> None
           | Some m \<Rightarrow> truthy (Some (fst m))))"

text \<open>\<^verbatim>\<open>LoginSchema\<close>: what \<^verbatim>\<open>parse\<close> accepts of a body.\<close>

definition LoginSchema :: "loginBody \<Rightarrow> bool" where
  "LoginSchema body =
     (1 \<le> length (login body) \<and> 1 \<le> length (password body)
      \<and> (case totp body of None \<Rightarrow> True | Some t \<Rightarrow> 6 \<le> length t \<and> length t \<le> 8))"

text \<open>
  \<^verbatim>\<open>POST /auth/login\<close>. Inputs beside the body: the session id of the request, its
  \<^verbatim>\<open>Cookie\<close> header, the time, and the random token a new trusted device would get.
\<close>

definition loginRoute ::
  "platform \<Rightarrow> crypto \<Rightarrow> int \<Rightarrow> string \<Rightarrow> string \<Rightarrow> string option \<Rightarrow> loginBody \<Rightarrow> db
     \<Rightarrow> (error + loginResponse) \<times> db" where
  "loginRoute R K now newToken sid header body d =
     (if \<not> LoginSchema body then (Inl ZodError, d)
      else case resolveLogin R (login body) d of
        Inl e \<Rightarrow> (Inl e, d)
      | Inr None \<Rightarrow> (Inl (HttpError 401 ''Invalid credentials''), d)
      | Inr (Some u) \<Rightarrow>
          if \<not> verifyPassword K (password body) (passwordHash u)
          then (Inl (HttpError 401 ''Invalid credentials''), d)
          else (case secondFactor R K now newToken header body u d of
                  Inl e \<Rightarrow> (Inl e, d)
                | Inr (d', trust) \<Rightarrow>
                    let s = \<lparr>sessUser = Some (userId u),
                             twoFactorPassed = Some (if \<not> totpEnabled u then False else True),
                             sessBoardId = initialBoard u d'\<rparr>
                    in (Inr \<lparr>respUserId = userId u,
                              respTwoFactorPassed = (twoFactorPassed s = Some True),
                              respBoardId = sessBoardId s,
                              respTrustCookie = trust\<rparr>,
                        saveSession sid s d')))"


text \<open>\<^verbatim>\<open>DELETE FROM "session" WHERE (sess->'user'->>'userId') = ...\<close>\<close>

definition deleteSessionsOf :: "string \<Rightarrow> (string \<times> sessionData) list \<Rightarrow> (string \<times> sessionData) list" where
  "deleteSessionsOf uid ss = filter (\<lambda>r. sessUser (snd r) \<noteq> Some uid) ss"

text \<open>The user row written by all three password routes.\<close>

definition setPassword :: "string \<Rightarrow> string \<Rightarrow> bool \<Rightarrow> user list \<Rightarrow> user list" where
  "setPassword uid h must us =
     map (\<lambda>u. if userId u = uid then u\<lparr>passwordHash := h, mustChangePassword := must\<rparr> else u) us"

text \<open>
  \<^verbatim>\<open>POST /auth/password/reset\<close>: the emailed single-use token. The transaction writes
  the user, marks the token used and deletes the user's sessions.
\<close>

definition passwordReset :: "crypto \<Rightarrow> int \<Rightarrow> string \<Rightarrow> string \<Rightarrow> db \<Rightarrow> (error + unit) \<times> db" where
  "passwordReset K now token newPassword d =
     (if length token < 20 \<or> length newPassword < 8 then (Inl ZodError, d)
      else case find (\<lambda>r. prtTokenHash r = sha256Hex K token \<and> now < prtExpiresAt r \<and> usedAt r = None)
                  (passwordResetTokens d) of
        None \<Rightarrow> (Inl (HttpError 400 ''Invalid or expired token''), d)
      | Some r \<Rightarrow>
          if prtUserId r \<notin> set (map userId (users d)) then (Inl InternalError, d)
          else (Inr (),
                d\<lparr>users := setPassword (prtUserId r) (hashPassword K newPassword) False (users d),
                  passwordResetTokens :=
                    map (\<lambda>t. if prtId t = prtId r then t\<lparr>usedAt := Some now\<rparr> else t)
                      (passwordResetTokens d),
                  sessions := deleteSessionsOf (prtUserId r) (sessions d)\<rparr>))"

text \<open>
  \<^verbatim>\<open>POST /auth/password/reset-by-totp\<close>. Its identifier resolution knows no alias and no
  ambiguity error. The transaction writes the user and deletes the user's sessions and
  trusted devices.
\<close>

definition resolveForReset :: "platform \<Rightarrow> string \<Rightarrow> db \<Rightarrow> error + user option" where
  "resolveForReset R l d =
     (let normalized = trim R l; lower = toLowerCase R normalized in
      if CHR ''@'' \<in> set normalized
      then findFirstInsensitive R EmailColumn normalized (users d)
      else case findManyInsensitive R NameColumn lower 2 (users d) of
             None \<Rightarrow> Inl InternalError
           | Some matches \<Rightarrow> if length matches = 1 then Inr (Some (hd matches)) else Inr None)"

definition passwordResetByTotp ::
  "platform \<Rightarrow> crypto \<Rightarrow> string \<Rightarrow> string \<Rightarrow> string \<Rightarrow> db \<Rightarrow> (error + unit) \<times> db" where
  "passwordResetByTotp R K l code newPassword d =
     (if l = [] \<or> length code < 6 \<or> 8 < length code \<or> length newPassword < 8 then (Inl ZodError, d)
      else case resolveForReset R l d of
        Inl e \<Rightarrow> (Inl e, d)
      | Inr None \<Rightarrow> (Inl (HttpError 400 ''Password reset not available''), d)
      | Inr (Some u) \<Rightarrow>
          (case (if totpEnabled u then truthy (totpSecret u) else None) of
             None \<Rightarrow> (Inl (HttpError 400 ''Password reset not available''), d)
           | Some secret \<Rightarrow>
               if \<not> verifyTotp K (trim R code) secret then (Inl (HttpError 400 ''Invalid code''), d)
               else if userId u \<notin> set (map userId (users d)) then (Inl InternalError, d)
               else (Inr (),
                     d\<lparr>users := setPassword (userId u) (hashPassword K newPassword) False (users d),
                       sessions := deleteSessionsOf (userId u) (sessions d),
                       trustedDevices := filter (\<lambda>t. tdUserId t \<noteq> userId u) (trustedDevices d)\<rparr>)))"

text \<open>\<^verbatim>\<open>POST /auth/password\<close>: behind \<^verbatim>\<open>requireLogin\<close> only.\<close>

definition changePassword :: "crypto \<Rightarrow> string \<Rightarrow> string \<Rightarrow> db \<Rightarrow> (error + unit) \<times> db" where
  "changePassword K sid newPassword d =
     (case requireLogin (loadSession d sid) d of
        Inl e \<Rightarrow> (Inl e, d)
      | Inr u \<Rightarrow>
          if length newPassword < 8 then (Inl ZodError, d)
          else (Inr (), d\<lparr>users := setPassword (userId u) (hashPassword K newPassword) False (users d)\<rparr>))"

text \<open>
  \<^verbatim>\<open>POST /auth/2fa/setup\<close> and \<^verbatim>\<open>POST /auth/2fa/enable\<close>, both behind \<^verbatim>\<open>requireLogin\<close>
  only. The secret that \<^verbatim>\<open>generateTotpSecret\<close> draws is an input. Enabling stores the
  pending secret as the secret, and marks the session of the request, and no other, as
  having passed the second factor.
\<close>

definition twoFaSetup :: "string \<Rightarrow> string \<Rightarrow> db \<Rightarrow> (error + unit) \<times> db" where
  "twoFaSetup sid secret d =
     (case requireLogin (loadSession d sid) d of
        Inl e \<Rightarrow> (Inl e, d)
      | Inr a \<Rightarrow>
          (case find (\<lambda>x. userId x = userId a) (users d) of
             None \<Rightarrow> (Inl (HttpError 404 ''User not found''), d)
           | Some u \<Rightarrow>
               (Inr (),
                d\<lparr>users := map (\<lambda>x. if userId x = userId u then x\<lparr>totpTempSecret := Some secret\<rparr> else x)
                              (users d)\<rparr>)))"

definition twoFaEnable :: "crypto \<Rightarrow> string \<Rightarrow> string \<Rightarrow> db \<Rightarrow> (error + unit) \<times> db" where
  "twoFaEnable K sid code d =
     (case requireLogin (loadSession d sid) d of
        Inl e \<Rightarrow> (Inl e, d)
      | Inr a \<Rightarrow>
          if length code < 6 \<or> 8 < length code then (Inl ZodError, d)
          else case find (\<lambda>x. userId x = userId a) (users d) of
            None \<Rightarrow> (Inl (HttpError 400 ''No 2FA setup in progress''), d)
          | Some u \<Rightarrow>
              (case truthy (totpTempSecret u) of
                 None \<Rightarrow> (Inl (HttpError 400 ''No 2FA setup in progress''), d)
               | Some temp \<Rightarrow>
                   if \<not> verifyTotp K code temp then (Inl (HttpError 400 ''Invalid code''), d)
                   else (Inr (),
                         saveSession sid ((loadSession d sid)\<lparr>twoFactorPassed := Some True\<rparr>)
                           (d\<lparr>users :=
                                map (\<lambda>x. if userId x = userId u
                                          then x\<lparr>totpEnabled := True, totpSecret := Some temp,
                                                 totpTempSecret := None\<rparr>
                                          else x)
                                  (users d)\<rparr>))))"

section \<open>The client's choice of screen\<close>

text \<open>
  \<^verbatim>\<open>GET /auth/me\<close> and the chain of early returns in \<^verbatim>\<open>App.tsx\<close> that picks the screen
  from its answer. \<^verbatim>\<open>me\<close> is null until the answer has come.
\<close>

record meUser =
  meMustChangePassword :: bool
  meTotpEnabled :: bool

record me =
  meUserOf :: "meUser option"
  meTwoFactorPassed :: bool

definition getMe :: "sessionData \<Rightarrow> db \<Rightarrow> me" where
  "getMe s d =
     (case truthy (sessUser s) of
        None \<Rightarrow> \<lparr>meUserOf = None, meTwoFactorPassed = False\<rparr>
      | Some uid \<Rightarrow>
          \<lparr>meUserOf = map_option
               (\<lambda>u. \<lparr>meMustChangePassword = mustChangePassword u, meTotpEnabled = totpEnabled u\<rparr>)
               (find (\<lambda>u. userId u = uid) (users d)),
           meTwoFactorPassed = (twoFactorPassed s = Some True)\<rparr>)"

datatype view =
  LoadingView | ResetPasswordView | LoginView | ChangePasswordView | TwoFaSetupView
  | TwoFaVerifyView | BoardView

definition appView :: "me option \<Rightarrow> string option \<Rightarrow> view" where
  "appView m resetToken =
     (case m of
        None \<Rightarrow> LoadingView
      | Some r \<Rightarrow>
          if truthy resetToken \<noteq> None then ResetPasswordView
          else case meUserOf r of
            None \<Rightarrow> LoginView
          | Some u \<Rightarrow>
              if meMustChangePassword u then ChangePasswordView
              else if \<not> meTotpEnabled u then TwoFaSetupView
              else if \<not> meTwoFactorPassed r then TwoFaVerifyView
              else BoardView)"


section \<open>Admin user management\<close>

text \<open>
  The routes \<^verbatim>\<open>/auth/users*\<close>, each behind \<^verbatim>\<open>requireLogin(), requireTwoFactor(),
  requireAdmin()\<close>. The format checks of zod (\<^verbatim>\<open>uuid()\<close>, \<^verbatim>\<open>email()\<close>) are parameters.
  A write that the database refuses (unknown row, unique or foreign key) throws, and the
  request ends in status 500 with nothing written.
\<close>

definition adminGate :: "sessionData \<Rightarrow> db \<Rightarrow> error + user" where
  "adminGate s d =
     (case requireLogin s d of
        Inl e \<Rightarrow> Inl e
      | Inr u \<Rightarrow>
          (case requireTwoFactor s (Some u) of
             Inl e \<Rightarrow> Inl e
           | Inr _ \<Rightarrow>
               (case requireAdmin (Some u) of
                  Inl e \<Rightarrow> Inl e
                | Inr _ \<Rightarrow> Inr u)))"

definition DEFAULT_BOARD_ID :: string where
  "DEFAULT_BOARD_ID = ''00000000-0000-0000-0000-000000000001''"

text \<open>\<^verbatim>\<open>prisma.user.count({ where: { role: Role.ADMIN } })\<close>\<close>

definition adminCount :: "db \<Rightarrow> nat" where
  "adminCount d = length (filter (\<lambda>u. role u = ADMIN) (users d))"

record createUserBody =
  cuEmail :: string
  cuName :: "string option"
  cuRole :: "Role option"
  cuPassword :: string

text \<open>\<^verbatim>\<open>POST /auth/users\<close>; the new row's id is an input.\<close>

definition createUser ::
  "(string \<Rightarrow> bool) \<Rightarrow> crypto \<Rightarrow> sessionData \<Rightarrow> string \<Rightarrow> createUserBody \<Rightarrow> db \<Rightarrow> (error + unit) \<times> db" where
  "createUser isEmail K s newId body d =
     (if \<not> isEmail (cuEmail body) \<or> cuName body = Some [] \<or> length (cuPassword body) < 8
      then (Inl ZodError, d)
      else case truthy (case sessBoardId s of
                          Some b \<Rightarrow> Some b
                        | None \<Rightarrow> (case boards d of [] \<Rightarrow> None | b # _ \<Rightarrow> Some b)) of
        None \<Rightarrow> (Inl (HttpError 500 ''No boards exist''), d)
      | Some b \<Rightarrow>
          if newId \<in> set (map userId (users d)) \<or> cuEmail body \<in> set (map email (users d))
             \<or> b \<notin> set (boards d)
          then (Inl InternalError, d)
          else (Inr (),
                d\<lparr>users := users d @
                   [\<lparr>userId = newId, email = cuEmail body,
                     name = (case cuName body of
                               Some n \<Rightarrow> n
                             | None \<Rightarrow> takeWhile (\<lambda>c. c \<noteq> CHR ''@'') (cuEmail body)),
                     role = (if cuRole body = Some ADMIN then ADMIN else MEMBER),
                     isSystem = False,
                     passwordHash = hashPassword K (cuPassword body),
                     mustChangePassword = True, totpEnabled = False,
                     totpSecret = None, totpTempSecret = None,
                     defaultBoardId = Some b\<rparr>],
                  memberships := memberships d @ [(b, newId)]\<rparr>))"

text \<open>\<^verbatim>\<open>POST /auth/users/:id/password\<close>\<close>

definition adminSetPassword ::
  "(string \<Rightarrow> bool) \<Rightarrow> crypto \<Rightarrow> string \<Rightarrow> string \<Rightarrow> db \<Rightarrow> (error + unit) \<times> db" where
  "adminSetPassword isUuid K i newPassword d =
     (if \<not> isUuid i \<or> length newPassword < 8 then (Inl ZodError, d)
      else if i \<notin> set (map userId (users d)) then (Inl InternalError, d)
      else (Inr (), d\<lparr>users := setPassword i (hashPassword K newPassword) True (users d)\<rparr>))"

record updateUserBody =
  newEmail :: "string option"
  newRole :: "Role option"

text \<open>
  \<^verbatim>\<open>PATCH /auth/users/:id\<close>. A user who becomes or stays MEMBER without any membership
  is first given one, on their default board, or else the oldest board, or else the
  permanent default board.
\<close>

definition adminUpdateUser ::
  "platform \<Rightarrow> (string \<Rightarrow> bool) \<Rightarrow> (string \<Rightarrow> bool) \<Rightarrow> string \<Rightarrow> updateUserBody \<Rightarrow> db
     \<Rightarrow> (error + unit) \<times> db" where
  "adminUpdateUser R isUuid isEmail i body d =
     (if \<not> isUuid i \<or> (case newEmail body of None \<Rightarrow> False | Some e \<Rightarrow> \<not> isEmail e)
      then (Inl ZodError, d)
      else case find (\<lambda>u. userId u = i) (users d) of
        None \<Rightarrow> (Inl (HttpError 404 ''User not found''), d)
      | Some u \<Rightarrow>
          if isSystem u \<and> newRole body \<noteq> None
          then (Inl (HttpError 400 ''Cannot change role for system admin''), d)
          else if newRole body = Some MEMBER \<and> role u = ADMIN \<and> adminCount d \<le> 1
          then (Inl (HttpError 400 ''Cannot demote last admin''), d)
          else case (case truthy (newEmail body) of
                       None \<Rightarrow> Inr None
                     | Some e \<Rightarrow>
                         findFirstInsensitive R EmailColumn e (filter (\<lambda>x. userId x \<noteq> i) (users d))) of
            Inl e \<Rightarrow> (Inl e, d)
          | Inr (Some existing) \<Rightarrow> (Inl (HttpError 400 ''Email already exists''), d)
          | Inr None \<Rightarrow>
            let nextRole = (case newRole body of Some r \<Rightarrow> r | None \<Rightarrow> role u);
                needBoard = (nextRole = MEMBER \<and> filter (\<lambda>m. snd m = i) (memberships d) = []);
                b = (case defaultBoardId u of
                       Some x \<Rightarrow> x
                     | None \<Rightarrow> (case boards d of x # _ \<Rightarrow> x | [] \<Rightarrow> DEFAULT_BOARD_ID));
                clash = (case newEmail body of
                           None \<Rightarrow> False
                         | Some e \<Rightarrow> find (\<lambda>x. email x = e \<and> userId x \<noteq> i) (users d) \<noteq> None)
            in if (needBoard \<and> b \<notin> set (boards d)) \<or> clash then (Inl InternalError, d)
               else
                 (Inr (),
                  d\<lparr>memberships := (if needBoard then memberships d @ [(b, i)] else memberships d),
                    users := map (\<lambda>x. if userId x = i
                                       then x\<lparr>defaultBoardId :=
                                                (if needBoard then Some b else defaultBoardId x),
                                              email := (case newEmail body of Some e \<Rightarrow> e | None \<Rightarrow> email x),
                                              role := (case newRole body of Some r \<Rightarrow> r | None \<Rightarrow> role x)\<rparr>
                                       else x)
                               (users d)\<rparr>))"

text \<open>
  \<^verbatim>\<open>DELETE /auth/users/:id\<close>. The user's sessions go first; the row's deletion cascades
  to memberships, trusted devices, reset tokens and participations, and leaves the
  user's cards without author.
\<close>

definition deleteUser :: "(string \<Rightarrow> bool) \<Rightarrow> string \<Rightarrow> string \<Rightarrow> db \<Rightarrow> (error + unit) \<times> db" where
  "deleteUser isUuid actor i d =
     (if \<not> isUuid i then (Inl ZodError, d)
      else if i = actor then (Inl (HttpError 400 ''Cannot delete yourself''), d)
      else case find (\<lambda>u. userId u = i) (users d) of
        None \<Rightarrow> (Inl (HttpError 404 ''User not found''), d)
      | Some u \<Rightarrow>
          if isSystem u then (Inl (HttpError 400 ''Cannot delete system admin''), d)
          else if role u = ADMIN \<and> adminCount d \<le> 1
          then (Inl (HttpError 400 ''Cannot delete last admin''), d)
          else (Inr (),
                d\<lparr>sessions := deleteSessionsOf i (sessions d),
                  users := filter (\<lambda>x. userId x \<noteq> i) (users d),
                  memberships := filter (\<lambda>m. snd m \<noteq> i) (memberships d),
                  trustedDevices := filter (\<lambda>t. tdUserId t \<noteq> i) (trustedDevices d),
                  passwordResetTokens := filter (\<lambda>t. prtUserId t \<noteq> i) (passwordResetTokens d),
                  participants := filter (\<lambda>p. snd p \<noteq> i) (participants d),
                  cards := map (\<lambda>c. if authorId c = Some i then c\<lparr>authorId := None\<rparr> else c) (cards d)\<rparr>))"

text \<open>
  \<^verbatim>\<open>PUT /auth/users/:id/boards\<close>: the memberships of a non-admin become exactly the
  boards listed, in the order the upserts create the new ones.
\<close>

definition setUserBoards ::
  "(string \<Rightarrow> bool) \<Rightarrow> string \<Rightarrow> string list \<Rightarrow> string \<Rightarrow> db \<Rightarrow> (error + unit) \<times> db" where
  "setUserBoards isUuid i boardIds dflt d =
     (if \<not> isUuid i then (Inl ZodError, d)
      else case find (\<lambda>u. userId u = i) (users d) of
        None \<Rightarrow> (Inl (HttpError 404 ''User not found''), d)
      | Some u \<Rightarrow>
          if role u = ADMIN \<or> isSystem u
          then (Inl (HttpError 400 ''Admins have access to all boards''), d)
          else if boardIds = [] \<or> \<not> list_all (\<lambda>b. isUuid b \<or> b = DEFAULT_BOARD_ID) (dflt # boardIds)
          then (Inl ZodError, d)
          else if dflt \<notin> set boardIds
          then (Inl (HttpError 400 ''defaultBoardId must be included in boardIds''), d)
          else if \<not> list_all (\<lambda>b. b \<in> set (boards d)) boardIds then (Inl InternalError, d)
          else
            let kept = filter (\<lambda>m. snd m \<noteq> i \<or> fst m \<in> set boardIds) (memberships d)
            in (Inr (),
                d\<lparr>users := map (\<lambda>x. if userId x = i then x\<lparr>defaultBoardId := Some dflt\<rparr> else x) (users d),
                  memberships :=
                    fold (\<lambda>b ms. if (b, i) \<in> set ms then ms else ms @ [(b, i)]) boardIds kept\<rparr>))"

datatype adminOp =
  CreateUser string createUserBody
  | SetPassword string string
  | UpdateUser string updateUserBody
  | DeleteUser string
  | SetUserBoards string "string list" string

text \<open>One request to an admin user-management route, on the session of that request.\<close>

definition adminRoute ::
  "platform \<Rightarrow> (string \<Rightarrow> bool) \<Rightarrow> (string \<Rightarrow> bool) \<Rightarrow> crypto \<Rightarrow> string \<Rightarrow> adminOp \<Rightarrow> db
     \<Rightarrow> (error + unit) \<times> db" where
  "adminRoute R isUuid isEmail K sid req d =
     (case adminGate (loadSession d sid) d of
        Inl e \<Rightarrow> (Inl e, d)
      | Inr actor \<Rightarrow>
          (case req of
             CreateUser newId body \<Rightarrow> createUser isEmail K (loadSession d sid) newId body d
           | SetPassword i pw \<Rightarrow> adminSetPassword isUuid K i pw d
           | UpdateUser i body \<Rightarrow> adminUpdateUser R isUuid isEmail i body d
           | DeleteUser i \<Rightarrow> deleteUser isUuid (userId actor) i d
           | SetUserBoards i bs dflt \<Rightarrow> setUserBoards isUuid i bs dflt d))"

text \<open>A sequence of such requests, each on its own session.\<close>

fun adminRun ::
  "platform \<Rightarrow> (string \<Rightarrow> bool) \<Rightarrow> (string \<Rightarrow> bool) \<Rightarrow> crypto \<Rightarrow> (string \<times> adminOp) list \<Rightarrow> db \<Rightarrow> db" where
  "adminRun R isUuid isEmail K [] d = d"
| "adminRun R isUuid isEmail K (r # rs) d =
     adminRun R isUuid isEmail K rs (snd (adminRoute R isUuid isEmail K (fst r) (snd r) d))"


section \<open>Notions the properties are stated with\<close>

text \<open>A card belongs to the partition (board, column).\<close>

definition inPartition :: "string \<Rightarrow> ColumnId \<Rightarrow> card \<Rightarrow> bool" where
  "inPartition b col c = (boardId c = b \<and> column c = col)"

text \<open>
  The positions of a partition, read in ascending order, are 0, 1, ..., n - 1: exactly
  the set {0, ..., n - 1}, no position twice.
\<close>

definition dense :: "card list \<Rightarrow> string \<Rightarrow> ColumnId \<Rightarrow> bool" where
  "dense cs b col = (map position (cardsIn cs b col) = map int [0..<length (cardsIn cs b col)])"

definition denseAll :: "card list \<Rightarrow> bool" where
  "denseAll cs = list_all (\<lambda>c. dense cs (boardId c) (column c)) cs"

text \<open>No position twice in a partition.\<close>

definition distinctPositions :: "card list \<Rightarrow> string \<Rightarrow> ColumnId \<Rightarrow> bool" where
  "distinctPositions cs b col = distinct (map position (filter (inPartition b col) cs))"

definition distinctPositionsAll :: "card list \<Rightarrow> bool" where
  "distinctPositionsAll cs = list_all (\<lambda>c. distinctPositions cs (boardId c) (column c)) cs"

text \<open>The first index of an element, as \<^verbatim>\<open>Array.prototype.indexOf\<close> counts it.\<close>

fun indexOf :: "'a list \<Rightarrow> 'a \<Rightarrow> nat" where
  "indexOf [] x = 0"
| "indexOf (y # ys) x = (if x = y then 0 else Suc (indexOf ys x))"

text \<open>The table after a batch of position writes for the ids of a list without repetition.\<close>

definition renumbered :: "(nat \<Rightarrow> string \<Rightarrow> card \<Rightarrow> card) \<Rightarrow> string list \<Rightarrow> card list \<Rightarrow> card list" where
  "renumbered f ids cs =
     map (\<lambda>c. if cardId c \<in> set ids then f (indexOf ids (cardId c)) (cardId c) c else c) cs"

text \<open>
  Requests to the three card routes that write positions, each with the board its
  session has selected, and a run of such requests.
\<close>

datatype cardOp =
  Create int string string string string ColumnId
  | Move "nat \<Rightarrow> int" string string string ColumnId int
  | Delete string string

fun isDelete :: "cardOp \<Rightarrow> bool" where
  "isDelete (Delete b i) = True"
| "isDelete _ = False"

fun cardStep :: "(string \<Rightarrow> bool) \<Rightarrow> cardOp \<Rightarrow> db \<Rightarrow> db" where
  "cardStep isUuid (Create now b actor newId descr col) d = snd (createCard now b actor newId descr col d)"
| "cardStep isUuid (Move now b actor i col k) d = fst (snd (moveCard isUuid now b actor i col k d))"
| "cardStep isUuid (Delete b i) d = snd (deleteCard isUuid b i d)"

fun cardRun :: "(string \<Rightarrow> bool) \<Rightarrow> cardOp list \<Rightarrow> db \<Rightarrow> db" where
  "cardRun isUuid [] d = d"
| "cardRun isUuid (r # rs) d = cardRun isUuid rs (cardStep isUuid r d)"

text \<open>
  What every admin route keeps of the user table: ids stay unique, an ADMIN remains if
  there was one, and a system user keeps its row and its role.
\<close>

definition usersOk :: "db \<Rightarrow> db \<Rightarrow> bool" where
  "usersOk d d' =
     (distinct (map userId (users d')) \<and>
      ((\<exists>x \<in> set (users d). role x = ADMIN) \<longrightarrow> (\<exists>x \<in> set (users d'). role x = ADMIN)) \<and>
      (\<forall>j r. (\<exists>x \<in> set (users d). userId x = j \<and> role x = r \<and> isSystem x) \<longrightarrow>
             (\<exists>x \<in> set (users d'). userId x = j \<and> role x = r \<and> isSystem x)))"

section \<open>Example states\<close>

text \<open>Small databases on which the handlers are run.\<close>

definition mkCard :: "string \<Rightarrow> string \<Rightarrow> ColumnId \<Rightarrow> int \<Rightarrow> card" where
  "mkCard i b col pos =
     \<lparr>cardId = i, boardId = b, description = ''task'', column = col, position = pos, authorId = None,
      updatedAt = 0\<rparr>"

definition mkUser :: "string \<Rightarrow> string \<Rightarrow> string \<Rightarrow> Role \<Rightarrow> user" where
  "mkUser i e n r =
     \<lparr>userId = i, email = e, name = n, role = r, isSystem = False, passwordHash = ''h:secret-pw'',
      mustChangePassword = False, totpEnabled = True, totpSecret = Some ''JBSWY3DP'',
      totpTempSecret = None, defaultBoardId = Some ''b1''\<rparr>"

definition boardDemo :: db where
  "boardDemo =
     \<lparr>users = [mkUser ''u1'' ''admin@local'' ''Root'' ADMIN, mkUser ''u2'' ''ann@x.io'' ''Ann'' MEMBER],
      boards = [''b1'', ''b2''],
      memberships = [(''b1'', ''u1''), (''b1'', ''u2'')],
      cards = [mkCard ''c1'' ''b1'' BACKLOG 0, mkCard ''c2'' ''b1'' BACKLOG 1,
               mkCard ''c3'' ''b1'' BACKLOG 2, mkCard ''c4'' ''b1'' TODO 0,
               mkCard ''c5'' ''b1'' TODO 1, mkCard ''c6'' ''b2'' BACKLOG 0],
      participants = [(''c2'', ''u1''), (''c2'', ''u2'')],
      trustedDevices = [], passwordResetTokens = [],
      sessions = [(''s1'', \<lparr>sessUser = Some ''u1'', twoFactorPassed = Some True, sessBoardId = Some ''b1''\<rparr>),
                  (''s2'', \<lparr>sessUser = Some ''u2'', twoFactorPassed = Some True, sessBoardId = Some ''b1''\<rparr>)]\<rparr>"

text \<open>The board after the first card of its backlog has been deleted.\<close>

definition gapDemo :: db where
  "gapDemo = snd (deleteCard (\<lambda>_. True) ''b1'' ''c1'' boardDemo)"

text \<open>
  Stand-ins for the cryptography: a hash is the text behind a prefix, and the valid TOTP
  code of a secret is the secret.
\<close>

definition demoCrypto :: crypto where
  "demoCrypto =
     \<lparr>verifyPassword = (\<lambda>p h. h = ''h:'' @ p), hashPassword = (\<lambda>p. ''h:'' @ p),
      verifyTotp = (\<lambda>code secret. code = secret), sha256Hex = (\<lambda>t. ''#'' @ t)\<rparr>"

text \<open>
  Stand-ins for the platform on ASCII text. Trimming strips the ASCII white space and
  lower-casing folds A to Z. An escape \<^verbatim>\<open>%XX\<close> of an ASCII character decodes to it, and a
  \<^verbatim>\<open>%\<close> that starts no such escape is refused (the escapes of longer UTF-8 sequences,
  which the runtime decodes too, do not occur in the examples). The database scans the table in creation
  order and stops at the limit; a value matches a pattern as under \<^verbatim>\<open>ILIKE\<close>: \<^verbatim>\<open>%\<close> stands
  for any text, \<^verbatim>\<open>_\<close> for any one character, a backslash takes the next character
  literally, and a pattern that ends in a lone backslash makes the query fail once the
  match gets there.
\<close>

definition asciiSpace :: "char \<Rightarrow> bool" where
  "asciiSpace c = (c \<in> set [CHR '' '', CHR 0x09, CHR 0x0A, CHR 0x0B, CHR 0x0C, CHR 0x0D])"

definition asciiTrim :: "string \<Rightarrow> string" where
  "asciiTrim s = rev (dropWhile asciiSpace (rev (dropWhile asciiSpace s)))"

definition asciiLowerChar :: "char \<Rightarrow> char" where
  "asciiLowerChar c =
     (case map_of (zip ''ABCDEFGHIJKLMNOPQRSTUVWXYZ'' ''abcdefghijklmnopqrstuvwxyz'') c of
        None \<Rightarrow> c
      | Some l \<Rightarrow> l)"

definition asciiLower :: "string \<Rightarrow> string" where
  "asciiLower s = map asciiLowerChar s"

definition hexValue :: "char \<Rightarrow> nat option" where
  "hexValue c = map_of (zip ''0123456789abcdef'' [0..<16] @ zip ''ABCDEF'' [10..<16]) c"

fun percentDecode :: "string \<Rightarrow> string option" where
  "percentDecode [] = Some []"
| "percentDecode (c # cs) =
     (if c \<noteq> CHR ''%'' then map_option ((#) c) (percentDecode cs)
      else case cs of
        h # l # rest \<Rightarrow>
          (case (hexValue h, hexValue l) of
             (Some a, Some b) \<Rightarrow>
               if 16 * a + b < 128 then map_option ((#) (char_of (16 * a + b))) (percentDecode rest)
               else None
           | _ \<Rightarrow> None)
      | _ \<Rightarrow> None)"

fun likeMatch :: "string \<Rightarrow> string \<Rightarrow> bool option" where
  "likeMatch [] t = Some (t = [])"
| "likeMatch (p # ps) [] = (if p = CHR ''%'' then likeMatch ps [] else Some False)"
| "likeMatch (p # ps) (x # t) =
     (if p = CHR ''%'' then
        (case likeMatch ps (x # t) of
           None \<Rightarrow> None
         | Some m \<Rightarrow> if m then Some True else likeMatch (p # ps) t)
      else if p = CHR ''_'' then likeMatch ps t
      else if p = CHR 0x5C then
        (case ps of [] \<Rightarrow> None | c # rest \<Rightarrow> if x = c then likeMatch rest t else Some False)
      else if p = x then likeMatch ps t
      else Some False)"

definition ilike :: "string \<Rightarrow> string \<Rightarrow> bool option" where
  "ilike v pattern = likeMatch (asciiLower pattern) (asciiLower v)"

fun scanUsers :: "(user \<Rightarrow> bool option) \<Rightarrow> nat \<Rightarrow> user list \<Rightarrow> user list option" where
  "scanUsers m n [] = Some []"
| "scanUsers m n (u # us) =
     (if n = 0 then Some []
      else case m u of
        None \<Rightarrow> None
      | Some hit \<Rightarrow>
          if hit then map_option ((#) u) (scanUsers m (n - 1) us) else scanUsers m n us)"

definition demoPlatform :: platform where
  "demoPlatform =
     \<lparr>trim = asciiTrim, toLowerCase = asciiLower, decodeURIComponent = percentDecode,
      findManyInsensitive =
        (\<lambda>col x n us. scanUsers (\<lambda>u. ilike (case col of EmailColumn \<Rightarrow> email u | NameColumn \<Rightarrow> name u) x) n us)\<rparr>"

definition authDemo :: db where
  "authDemo =
     \<lparr>users =
        [(mkUser ''u1'' ''admin@local'' ''Root'' ADMIN)
           \<lparr>isSystem := True, passwordHash := ''h:root-password'', totpSecret := Some ''111111''\<rparr>,
         (mkUser ''u2'' ''ann@x.io'' ''Ann'' MEMBER)
           \<lparr>passwordHash := ''h:ann-password'', totpSecret := Some ''222222''\<rparr>,
         mkUser ''u3'' ''carl@x.io'' ''Admin'' MEMBER,
         mkUser ''u4'' ''dora@x.io'' ''admin'' MEMBER,
         mkUser ''u5'' ''kim@x.io'' ''Kim'' MEMBER,
         mkUser ''u6'' ''kim2@x.io'' ''KIM'' MEMBER,
         (mkUser ''u7'' ''eve@x.io'' ''Eve'' MEMBER)
           \<lparr>passwordHash := ''h:eve-password'', totpEnabled := False, totpSecret := None\<rparr>],
      boards = [''b1''],
      memberships = [(''b1'', ''u1''), (''b1'', ''u2''), (''b1'', ''u7'')],
      cards = [mkCard ''c1'' ''b1'' BACKLOG 0],
      participants = [],
      trustedDevices =
        [\<lparr>tdUserId = ''u2'', tokenHash = ''#ann-device-token'', expiresAt = 5000, lastUsedAt = 0\<rparr>],
      passwordResetTokens =
        [\<lparr>prtId = ''t1'', prtUserId = ''u2'', prtTokenHash = ''#reset-token-0123456789'',
          prtExpiresAt = 5000, usedAt = None\<rparr>],
      sessions =
        [(''s1'', \<lparr>sessUser = Some ''u1'', twoFactorPassed = Some True, sessBoardId = Some ''b1''\<rparr>),
         (''s2'', \<lparr>sessUser = Some ''u2'', twoFactorPassed = Some True, sessBoardId = Some ''b1''\<rparr>)]\<rparr>"

definition annLogin :: "string \<Rightarrow> string option \<Rightarrow> loginBody" where
  "annLogin pw code = \<lparr>login = ''ann@x.io'', password = pw, totp = code, rememberDevice = False\<rparr>"


text \<open>
  The state after an admin has given Ann a temporary password and Ann has logged in with
  it and her TOTP code.
\<close>

definition tempPasswordDemo :: db where
  "tempPasswordDemo =
     snd (loginRoute demoPlatform demoCrypto 1000 ''new-token'' ''s9'' None
            (annLogin ''temp-password'' (Some ''222222''))
            (snd (adminSetPassword (\<lambda>_. True) demoCrypto ''u2'' ''temp-password'' authDemo)))"

text \<open>
  The state after Ann has redeemed her emailed reset token, and the state after she has
  reset her password with a TOTP code instead.
\<close>

definition tokenResetDemo :: db where
  "tokenResetDemo =
     snd (passwordReset demoCrypto 1000 ''reset-token-0123456789'' ''new-password'' authDemo)"

definition totpResetDemo :: db where
  "totpResetDemo = snd (passwordResetByTotp demoPlatform demoCrypto ''ann@x.io'' ''222222'' ''new-password'' authDemo)"

text \<open>
  Eve, who has not set up TOTP yet, logs in on two devices (sessions s3 and s4); then,
  on the first, she sets up TOTP and enables it.
\<close>

definition eveLogin :: loginBody where
  "eveLogin = \<lparr>login = ''eve@x.io'', password = ''eve-password'', totp = None, rememberDevice = False\<rparr>"

definition setupDemo :: db where
  "setupDemo =
     snd (loginRoute demoPlatform demoCrypto 1000 ''new-token'' ''s4'' None eveLogin
            (snd (loginRoute demoPlatform demoCrypto 1000 ''new-token'' ''s3'' None eveLogin authDemo)))"

definition verifyDemo :: db where
  "verifyDemo = snd (twoFaEnable demoCrypto ''s3'' ''333333'' (snd (twoFaSetup ''s3'' ''333333'' setupDemo)))"

text \<open>
  The state after an admin has given Eve, still without TOTP, a temporary password and
  she has logged in with it (session s5).
\<close>

definition tempEveDemo :: db where
  "tempEveDemo =
     snd (loginRoute demoPlatform demoCrypto 1000 ''new-token'' ''s5'' None
            (eveLogin\<lparr>password := ''temp-password''\<rparr>)
            (snd (adminSetPassword (\<lambda>_. True) demoCrypto ''u7'' ''temp-password'' authDemo)))"

section \<open>Lists, transactions and position writes\<close>

lemma indexOf_less: "x \<in> set xs \<Longrightarrow> indexOf xs x < length xs"
  by (induction xs) auto

lemma nth_indexOf: "x \<in> set xs \<Longrightarrow> xs ! indexOf xs x = x"
  by (induction xs) auto

lemma indexOf_nth: "distinct xs \<Longrightarrow> j < length xs \<Longrightarrow> indexOf xs (xs ! j) = j"
proof (induction xs arbitrary: j)
  case Nil
  then show ?case by simp
next
  case (Cons a xs)
  then show ?case by (cases j) auto
qed

lemma transaction_append:
  "transaction (ws @ vs) s = (case transaction ws s of None \<Rightarrow> None | Some s' \<Rightarrow> transaction vs s')"
  by (induction ws arbitrary: s) (auto split: option.splits)

lemma writes_from:
  assumes "distinct ids" and "set ids \<subseteq> cardId ` set cs"
    and keep: "\<And>p i c. cardId (f p i c) = cardId c"
  shows "transaction (map (\<lambda>(pos, i). card_update i (f pos i)) (enumerate k ids)) cs =
         Some (map (\<lambda>c. if cardId c \<in> set ids then f (k + indexOf ids (cardId c)) (cardId c) c else c) cs)"
  using assms(1,2)
proof (induction ids arbitrary: k cs)
  case Nil
  then show ?case by simp
next
  case (Cons a ids)
  let ?cs1 = "map (\<lambda>c. if cardId c = a then f k a c else c) cs"
  have upd: "card_update a (f k a) cs = Some ?cs1"
    using Cons.prems by (auto simp: card_update_def)
  have ids1: "cardId ` set ?cs1 = cardId ` set cs"
  proof -
    have "cardId ` set ?cs1 = (\<lambda>c. cardId (if cardId c = a then f k a c else c)) ` set cs"
      by (simp only: set_map image_image)
    also have "\<dots> = cardId ` set cs"
      by (rule image_cong) (simp_all add: keep)
    finally show ?thesis .
  qed
  have "transaction (map (\<lambda>(pos, i). card_update i (f pos i)) (enumerate (Suc k) ids)) ?cs1 =
        Some (map (\<lambda>c. if cardId c \<in> set ids then f (Suc k + indexOf ids (cardId c)) (cardId c) c else c) ?cs1)"
  proof (rule Cons.IH)
    show "distinct ids" using Cons.prems(1) by simp
    have "set ids \<subseteq> cardId ` set cs" using Cons.prems(2) by simp
    then show "set ids \<subseteq> cardId ` set ?cs1" by (simp only: ids1)
  qed
  moreover have "map (\<lambda>c. if cardId c \<in> set ids then f (Suc k + indexOf ids (cardId c)) (cardId c) c else c) ?cs1
      = map (\<lambda>c. if cardId c \<in> set (a # ids) then f (k + indexOf (a # ids) (cardId c)) (cardId c) c else c) cs"
    using Cons.prems(1) by (simp add: keep)
  ultimately show ?case
    using upd by simp
qed

lemma positionWrites_result:
  assumes "distinct ids" and "set ids \<subseteq> cardId ` set cs"
    and "\<And>p i c. cardId (f p i c) = cardId c"
  shows "transaction (positionWrites f ids) cs = Some (renumbered f ids cs)"
  using writes_from [OF assms, where k = 0] by (simp add: positionWrites_def renumbered_def)




lemma cardsIn_alt: "cardsIn cs b col = sort_key position (filter (inPartition b col) cs)"
proof -
  have "inPartition b col = (\<lambda>c. boardId c = b \<and> column c = col)"
    by (rule ext) (simp add: inPartition_def)
  then show ?thesis by (simp add: cardsIn_def)
qed

lemma distinct_map_sort_key: "distinct (map f (sort_key k xs)) = distinct (map f xs)"
  by (simp add: distinct_map)

lemma set_idsIn: "set (idsIn cs b col) = cardId ` {c \<in> set cs. inPartition b col c}"
  by (simp add: idsIn_def cardsIn_alt)

lemma distinct_idsIn: "distinct (map cardId cs) \<Longrightarrow> distinct (idsIn cs b col)"
proof -
  assume d: "distinct (map cardId cs)"
  have "distinct (map cardId (filter (inPartition b col) cs))"
    using d by (rule distinct_map_filter)
  then show ?thesis
    by (simp add: idsIn_def cardsIn_alt distinct_map_sort_key)
qed

lemma sorted_upt_int_unique:
  assumes "sorted (ps :: int list)" and "distinct ps" and "set ps = int ` {0..<n}"
  shows "ps = map int [0..<n]"
proof (rule sorted_distinct_set_unique)
  show "sorted (map int [0..<n])" by (simp add: sorted_map)
  show "distinct (map int [0..<n])" by (simp add: distinct_map)
  show "set ps = set (map int [0..<n])" using assms(3) by simp
qed (use assms in auto)

lemma order_by_index:
  assumes dL: "distinct L" and dx: "distinct (map cardId xs)"
    and ids: "cardId ` set xs = set L"
    and pos: "\<And>c. c \<in> set xs \<Longrightarrow> position c = int (indexOf L (cardId c))"
  shows "map cardId (sort_key position xs) = L"
    and "map position (sort_key position xs) = map int [0..<length L]"
proof -
  let ?ys = "sort_key position xs"
  have len: "length xs = length L"
    using dL dx ids by (metis distinct_card length_map set_map)
  have setpos: "set (map position ?ys) = int ` {0..<length L}"
  proof -
    have "set (map position ?ys) = (\<lambda>c. int (indexOf L (cardId c))) ` set xs"
      using pos by (auto simp: image_iff)
    also have "\<dots> = int ` indexOf L ` cardId ` set xs"
      by (simp only: image_image)
    also have "\<dots> = int ` indexOf L ` set L"
      by (simp only: ids)
    also have "indexOf L ` set L = {0..<length L}"
    proof (rule set_eqI)
      fix j show "j \<in> indexOf L ` set L \<longleftrightarrow> j \<in> {0..<length L}"
        using indexOf_less [of _ L] indexOf_nth [OF dL] by (auto simp: image_iff) (metis nth_mem)
    qed
    finally show ?thesis .
  qed
  have "distinct (map position xs)"
  proof -
    have "inj_on (\<lambda>c. int (indexOf L (cardId c))) (set xs)"
    proof (rule inj_onI)
      fix c c' assume c: "c \<in> set xs" and c': "c' \<in> set xs"
        and e: "int (indexOf L (cardId c)) = int (indexOf L (cardId c'))"
      have "cardId c \<in> set L" "cardId c' \<in> set L" using c c' ids by auto
      then have "cardId c = cardId c'" using e by (metis nth_indexOf of_nat_eq_iff)
      then show "c = c'" using dx c c' by (meson distinct_map inj_onD)
    qed
    then have "inj_on position (set xs)"
      using pos by (auto simp: inj_on_def)
    moreover have "distinct xs" using dx by (simp add: distinct_map)
    ultimately show ?thesis by (simp add: distinct_map)
  qed
  then have dpos: "distinct (map position ?ys)"
    by (metis distinct_map distinct_sort set_sort)
  have "sorted (map position ?ys)" by (rule sorted_sort_key)
  then show P: "map position ?ys = map int [0..<length L]"
    using dpos setpos by (rule sorted_upt_int_unique)
  show "map cardId ?ys = L"
  proof (rule nth_equalityI)
    show "length (map cardId ?ys) = length L" using len by simp
    fix j assume "j < length (map cardId ?ys)"
    then have j: "j < length L" using len by simp
    then have m: "?ys ! j \<in> set xs" using len by (metis length_sort nth_mem set_sort)
    have "position (?ys ! j) = int j"
      using P j len by (metis length_map length_sort nth_map nth_upt add_0)
    then have "indexOf L (cardId (?ys ! j)) = j" using pos [OF m] by simp
    moreover have "cardId (?ys ! j) \<in> set L" using m ids by auto
    ultimately have "L ! j = cardId (?ys ! j)" using nth_indexOf by metis
    then show "map cardId ?ys ! j = L ! j" using j len by simp
  qed
qed


lemma map_cardId_renumbered:
  assumes "\<And>p i c. cardId (f p i c) = cardId c"
  shows "map cardId (renumbered f L cs) = map cardId cs"
  by (simp add: renumbered_def assms)

lemma renumbered_twice:
  assumes "set L1 \<inter> set L2 = {}" and "\<And>p i c. cardId (f1 p i c) = cardId c"
  shows "renumbered f2 L2 (renumbered f1 L1 cs) =
         map (\<lambda>c. if cardId c \<in> set L1 then f1 (indexOf L1 (cardId c)) (cardId c) c
                  else if cardId c \<in> set L2 then f2 (indexOf L2 (cardId c)) (cardId c) c
                  else c) cs"
  using assms by (auto simp: renumbered_def)

lemma filter_map_unchanged:
  assumes "\<And>c. c \<in> set cs \<Longrightarrow> g c = c \<or> (\<not> P c \<and> \<not> P (g c))"
  shows "filter P (map g cs) = filter P cs"
  using assms
proof (induction cs)
  case Nil
  then show ?case by simp
next
  case (Cons a cs)
  have "g a = a \<or> (\<not> P a \<and> \<not> P (g a))" using Cons.prems by simp
  moreover have "filter P (map g cs) = filter P cs" using Cons by simp
  ultimately show ?case by auto
qed

lemma partition_after:
  assumes D: "distinct (map cardId cs)" and dL: "distinct L"
    and keep: "\<And>c. cardId (g c) = cardId c"
    and mem: "\<And>c. c \<in> set cs \<Longrightarrow> inPartition b col (g c) \<longleftrightarrow> cardId c \<in> set L"
    and sub: "set L \<subseteq> cardId ` set cs"
    and pos: "\<And>c. c \<in> set cs \<Longrightarrow> cardId c \<in> set L \<Longrightarrow> position (g c) = int (indexOf L (cardId c))"
  shows "idsIn (map g cs) b col = L"
    and "map position (cardsIn (map g cs) b col) = map int [0..<length L]"
proof -
  let ?xs = "filter (inPartition b col) (map g cs)"
  have 1: "distinct (map cardId ?xs)"
  proof -
    have e: "map cardId (map g cs) = map cardId cs"
      by (induction cs) (simp_all add: keep)
    have "distinct (map cardId (map g cs))" unfolding e by (rule D)
    then show ?thesis by (rule distinct_map_filter)
  qed
  have 2: "cardId ` set ?xs = set L"
  proof (rule set_eqI)
    fix x show "x \<in> cardId ` set ?xs \<longleftrightarrow> x \<in> set L"
    proof
      assume "x \<in> cardId ` set ?xs"
      then obtain c where "c \<in> set cs" "inPartition b col (g c)" "x = cardId (g c)" by auto
      then show "x \<in> set L" using mem keep by simp
    next
      assume x: "x \<in> set L"
      then obtain c where c: "c \<in> set cs" "x = cardId c" using sub by auto
      then have "inPartition b col (g c)" using mem x by simp
      then have "g c \<in> set ?xs" using c by simp
      then show "x \<in> cardId ` set ?xs" using c keep by (metis imageI)
    qed
  qed
  have 3: "position c' = int (indexOf L (cardId c'))" if "c' \<in> set ?xs" for c'
  proof -
    from that obtain c where c: "c \<in> set cs" "c' = g c" "inPartition b col (g c)" by auto
    then have "cardId c \<in> set L" using mem by simp
    then show ?thesis using pos c keep by simp
  qed
  show "idsIn (map g cs) b col = L"
    unfolding idsIn_def cardsIn_alt using order_by_index(1) [OF dL 1 2 3] by simp
  show "map position (cardsIn (map g cs) b col) = map int [0..<length L]"
    unfolding cardsIn_alt using order_by_index(2) [OF dL 1 2 3] by simp
qed

lemma partition_untouched:
  assumes "\<And>c. c \<in> set cs \<Longrightarrow> g c = c \<or> (\<not> inPartition b col c \<and> \<not> inPartition b col (g c))"
  shows "cardsIn (map g cs) b col = cardsIn cs b col"
  unfolding cardsIn_alt using filter_map_unchanged [of cs g "inPartition b col"] assms by simp

lemma findCard_Some:
  "findCard cs i b = Some c \<Longrightarrow> c \<in> set cs \<and> cardId c = i \<and> boardId c = b"
  unfolding findCard_def by (auto simp: find_Some_iff)

lemma id_in_partition:
  assumes "distinct (map cardId cs)" and "c \<in> set cs"
  shows "cardId c \<in> set (idsIn cs b col) \<longleftrightarrow> inPartition b col c"
proof
  assume "cardId c \<in> set (idsIn cs b col)"
  then obtain c' where c': "c' \<in> set cs" "inPartition b col c'" "cardId c' = cardId c"
    by (auto simp: set_idsIn)
  then have "c' = c" using assms by (meson distinct_map inj_onD)
  then show "inPartition b col c" using c' by simp
next
  assume "inPartition b col c"
  then show "cardId c \<in> set (idsIn cs b col)" using assms(2) by (auto simp: set_idsIn)
qed

lemma clamp_range: "0 \<le> clamp k 0 (int n) \<and> clamp k 0 (int n) \<le> int n"
  by (simp add: clamp_def)

lemma clamp_nat: "nat (clamp k 0 (int n)) \<le> n"
  by (simp add: clamp_def)

lemma set_insertAt: "set (insertAt k i ids) = insert i (set ids)"
proof -
  have "set (take n ids) \<union> set (drop n ids) = set ids" for n
    by (metis append_take_drop_id set_append)
  then show ?thesis by (auto simp: insertAt_def Let_def)
qed

lemma distinct_insertAt: "distinct ids \<Longrightarrow> i \<notin> set ids \<Longrightarrow> distinct (insertAt k i ids)"
proof -
  assume a: "distinct ids" "i \<notin> set ids"
  have "set (take n ids) \<inter> set (drop n ids) = {}" for n
    using a(1) by (simp add: set_take_disj_set_drop_if_distinct)
  moreover have "i \<notin> set (take n ids)" "i \<notin> set (drop n ids)" for n
    using a by (auto dest: in_set_takeD in_set_dropD)
  ultimately show ?thesis using a(1) by (simp add: insertAt_def Let_def)
qed

lemma length_insertAt: "length (insertAt k i ids) = Suc (length ids)"
  using clamp_nat [of k "length ids"] by (simp add: insertAt_def Let_def)

lemma nth_insertAt: "insertAt k i ids ! nat (clamp k 0 (int (length ids))) = i"
  using clamp_nat [of k "length ids"] by (simp add: insertAt_def Let_def nth_append min_absorb2)

lemma indexOf_insertAt:
  "i \<notin> set ids \<Longrightarrow> indexOf (insertAt k i ids) i = nat (clamp k 0 (int (length ids)))"
proof -
  assume a: "i \<notin> set ids"
  have "indexOf (xs @ i # ys) i = length xs" if "i \<notin> set xs" for xs ys
    using that by (induction xs) auto
  moreover have "i \<notin> set (take n ids)" for n using a by (auto dest: in_set_takeD)
  ultimately show ?thesis
    using clamp_nat [of k "length ids"] by (simp add: insertAt_def Let_def min_absorb2)
qed


lemma set_remove1_insertAt:
  "i \<in> set ids \<Longrightarrow> distinct ids \<Longrightarrow> set (insertAt k i (remove1 i ids)) = set ids"
  by (auto simp: set_insertAt)

lemma same_column_cards:
  fixes k :: int
  assumes D: "distinct (map cardId cs)" and f: "findCard cs i b = Some c"
  defines "L \<equiv> insertAt k i (remove1 i (idsIn cs b (column c)))"
  shows "transaction (positionWrites (setPosition now) L) cs = Some (renumbered (setPosition now) L cs)"
    and "idsIn (renumbered (setPosition now) L cs) b (column c) = L"
    and "map position (cardsIn (renumbered (setPosition now) L cs) b (column c)) = map int [0..<length L]"
    and "b2 \<noteq> b \<or> col2 \<noteq> column c \<Longrightarrow>
         cardsIn (renumbered (setPosition now) L cs) b2 col2 = cardsIn cs b2 col2"
proof -
  let ?F = "idsIn cs b (column c)"
  let ?g = "\<lambda>c. if cardId c \<in> set L then setPosition now (indexOf L (cardId c)) (cardId c) c else c"
  have c: "c \<in> set cs" "cardId c = i" "boardId c = b" using findCard_Some [OF f] by simp_all
  have dF: "distinct ?F" using D by (rule distinct_idsIn)
  have iF: "i \<in> set ?F" using id_in_partition [OF D c(1), of b "column c"] c by (simp add: inPartition_def)
  have sL: "set L = set ?F" unfolding L_def using iF dF by (rule set_remove1_insertAt)
  have dL: "distinct L" unfolding L_def using dF by (intro distinct_insertAt) simp_all
  have sub: "set L \<subseteq> cardId ` set cs" unfolding sL by (auto simp: set_idsIn)
  have keep: "\<And>p j x. cardId (setPosition now p j x) = cardId x" by (simp add: setPosition_def)
  show "transaction (positionWrites (setPosition now) L) cs = Some (renumbered (setPosition now) L cs)"
    using dL sub keep by (rule positionWrites_result)
  have r: "renumbered (setPosition now) L cs = map ?g cs" by (simp add: renumbered_def)
  have part: "inPartition b' col' (?g x) = inPartition b' col' x" for b' col' x
    by (simp add: inPartition_def setPosition_def)
  have mem: "inPartition b (column c) (?g x) \<longleftrightarrow> cardId x \<in> set L" if "x \<in> set cs" for x
  proof -
    have "inPartition b (column c) (?g x) = inPartition b (column c) x" by (rule part)
    also have "\<dots> \<longleftrightarrow> cardId x \<in> set ?F" using id_in_partition [OF D that] by simp
    finally show ?thesis unfolding sL .
  qed
  have k: "\<And>x. cardId (?g x) = cardId x" by (simp add: setPosition_def)
  have pos: "position (?g x) = int (indexOf L (cardId x))" if "cardId x \<in> set L" for x
    using that by (simp add: setPosition_def)
  show "idsIn (renumbered (setPosition now) L cs) b (column c) = L"
    unfolding r using D dL k mem sub pos by (rule partition_after(1))
  show "map position (cardsIn (renumbered (setPosition now) L cs) b (column c)) = map int [0..<length L]"
    unfolding r using D dL k mem sub pos by (rule partition_after(2))
  show "cardsIn (renumbered (setPosition now) L cs) b2 col2 = cardsIn cs b2 col2"
    if o: "b2 \<noteq> b \<or> col2 \<noteq> column c"
    unfolding r
  proof (rule partition_untouched)
    fix x assume x: "x \<in> set cs"
    show "?g x = x \<or> (\<not> inPartition b2 col2 x \<and> \<not> inPartition b2 col2 (?g x))"
    proof (cases "cardId x \<in> set L")
      case True
      then have "inPartition b (column c) x" using id_in_partition [OF D x] sL by simp
      then have "\<not> inPartition b2 col2 x" using o by (auto simp: inPartition_def)
      moreover have "inPartition b2 col2 (?g x) = inPartition b2 col2 x" by (rule part)
      ultimately show ?thesis by blast
    next
      case False
      then show ?thesis by simp
    qed
  qed
qed


lemma same_id:
  "distinct (map cardId cs) \<Longrightarrow> x \<in> set cs \<Longrightarrow> y \<in> set cs \<Longrightarrow> cardId x = cardId y \<Longrightarrow> x = y"
  by (auto simp: distinct_map dest: inj_onD)

lemma cross_column_cards:
  fixes k :: int and now now2 :: "nat \<Rightarrow> int"
  assumes D: "distinct (map cardId cs)" and f: "findCard cs i b = Some c" and ne: "column c \<noteq> Y"
  defines "F \<equiv> remove1 i (idsIn cs b (column c))"
    and "T \<equiv> insertAt k i (remove1 i (idsIn cs b Y))"
  defines "cs' \<equiv> renumbered (setPositionColumn now2 i Y) T (renumbered (setPosition now) F cs)"
  shows "transaction (positionWrites (setPosition now) F @ positionWrites (setPositionColumn now2 i Y) T) cs = Some cs'"
    and "idsIn cs' b (column c) = F"
    and "map position (cardsIn cs' b (column c)) = map int [0..<length F]"
    and "idsIn cs' b Y = T"
    and "map position (cardsIn cs' b Y) = map int [0..<length T]"
    and "remove1 i (idsIn cs b Y) = idsIn cs b Y"
    and "i \<in> set (idsIn cs b (column c))"
    and "b2 \<noteq> b \<or> (col2 \<noteq> column c \<and> col2 \<noteq> Y) \<Longrightarrow> cardsIn cs' b2 col2 = cardsIn cs b2 col2"
    and "findCard cs' i b = Some (c\<lparr>column := Y, position := clamp k 0 (int (length (idsIn cs b Y))),
                   updatedAt := now2 (nat (clamp k 0 (int (length (idsIn cs b Y)))))\<rparr>)"
    and "map cardId cs' = map cardId cs"
proof -
  let ?X = "column c"
  let ?FI = "idsIn cs b ?X"
  let ?TI = "idsIn cs b Y"
  let ?G = "\<lambda>x. if cardId x \<in> set F then setPosition now (indexOf F (cardId x)) (cardId x) x
                else if cardId x \<in> set T then setPositionColumn now2 i Y (indexOf T (cardId x)) (cardId x) x
                else x"
  have c: "c \<in> set cs" "cardId c = i" "boardId c = b" using findCard_Some [OF f] by simp_all
  have dFI: "distinct ?FI" and dTI: "distinct ?TI" using D by (rule distinct_idsIn)+
  show iFI: "i \<in> set ?FI"
    using id_in_partition [OF D c(1), of b ?X] c by (simp add: inPartition_def)
  have iTI: "i \<notin> set ?TI"
    using id_in_partition [OF D c(1), of b Y] c ne by (simp add: inPartition_def)
  show rT: "remove1 i ?TI = ?TI" using iTI by (simp add: remove1_idem)
  have sF: "set F = set ?FI - {i}" unfolding F_def using dFI by simp
  have sT: "set T = insert i (set ?TI)" unfolding T_def rT by (rule set_insertAt)
  have dF: "distinct F" unfolding F_def using dFI by simp
  have dT: "distinct T" unfolding T_def rT using dTI iTI by (rule distinct_insertAt)
  have inX: "cardId x \<in> set ?FI \<longleftrightarrow> inPartition b ?X x" if "x \<in> set cs" for x
    using id_in_partition [OF D that] .
  have inY: "cardId x \<in> set ?TI \<longleftrightarrow> inPartition b Y x" if "x \<in> set cs" for x
    using id_in_partition [OF D that] .
  have xc: "x = c" if "x \<in> set cs" "cardId x = i" for x
    using same_id [OF D that(1) c(1)] that(2) c(2) by simp
  have disj: "set F \<inter> set T = {}"
  proof -
    have "x \<notin> set ?TI" if "x \<in> set ?FI" for x
    proof -
      from that obtain y where y: "y \<in> set cs" "inPartition b ?X y" "x = cardId y"
        by (auto simp: set_idsIn)
      then have "\<not> inPartition b Y y" using ne by (auto simp: inPartition_def)
      then show ?thesis using inY y by simp
    qed
    then show ?thesis unfolding sF sT by auto
  qed
  have subF: "set F \<subseteq> cardId ` set cs" unfolding sF by (auto simp: set_idsIn)
  have subT: "set T \<subseteq> cardId ` set cs" unfolding sT using c by (auto simp: set_idsIn)
  have keep1: "\<And>p j x. cardId (setPosition now p j x) = cardId x" by (simp add: setPosition_def)
  have keep2: "\<And>p j x. cardId (setPositionColumn now2 i Y p j x) = cardId x"
    by (simp add: setPositionColumn_def)
  have r: "cs' = map ?G cs"
    unfolding cs'_def using disj keep1 by (rule renumbered_twice)
  have kG: "\<And>x. cardId (?G x) = cardId x" by (simp add: keep1 keep2)
  show ids: "map cardId cs' = map cardId cs"
    unfolding r by (induction cs) (simp_all add: keep1 keep2)
  have t1: "transaction (positionWrites (setPosition now) F) cs = Some (renumbered (setPosition now) F cs)"
    using dF subF keep1 by (rule positionWrites_result)
  have "set T \<subseteq> cardId ` set (renumbered (setPosition now) F cs)"
    using subT map_cardId_renumbered [of "setPosition now" F cs, OF keep1] by (metis set_map)
  then have t2: "transaction (positionWrites (setPositionColumn now2 i Y) T) (renumbered (setPosition now) F cs) = Some cs'"
    unfolding cs'_def using dT keep2 by (intro positionWrites_result)
  show "transaction (positionWrites (setPosition now) F @ positionWrites (setPositionColumn now2 i Y) T) cs = Some cs'"
    by (simp add: transaction_append t1 t2)
  have G1: "?G x = x\<lparr>position := int (indexOf F (cardId x)), updatedAt := now (indexOf F (cardId x))\<rparr>" if "cardId x \<in> set F" for x
    using that by (simp add: setPosition_def)
  have G2: "?G x = x\<lparr>column := Y, position := int (indexOf T i), updatedAt := now2 (indexOf T i)\<rparr>" if "cardId x = i" for x
    using that sF sT by (simp add: setPositionColumn_def)
  have G3: "?G x = x\<lparr>position := int (indexOf T (cardId x)), updatedAt := now2 (indexOf T (cardId x))\<rparr>" if "cardId x \<in> set ?TI" for x
  proof -
    have "cardId x \<in> set T" "cardId x \<noteq> i" using that sT iTI by auto
    moreover from this have "cardId x \<notin> set F" using disj by auto
    ultimately show ?thesis by (simp add: setPositionColumn_def)
  qed
  have G4: "?G x = x" if "cardId x \<notin> set F" "cardId x \<notin> set T" for x
    using that by simp
  have cases: "cardId x \<in> set F \<or> cardId x = i \<or> cardId x \<in> set ?TI \<or> (cardId x \<notin> set F \<and> cardId x \<notin> set T)" for x
    unfolding sT by auto
  have memX: "inPartition b ?X (?G x) \<longleftrightarrow> cardId x \<in> set F" if x: "x \<in> set cs" for x
  proof -
    consider "cardId x \<in> set F" | "cardId x = i" | "cardId x \<in> set ?TI" | "cardId x \<notin> set F" "cardId x \<notin> set T"
      using cases by blast
    then show ?thesis
    proof cases
      case 1
      then have "inPartition b ?X x" using inX [OF x] sF by simp
      then show ?thesis using 1 by (subst G1 [OF 1]) (simp add: inPartition_def)
    next
      case 2
      then have "cardId x \<notin> set F" using sF by simp
      then show ?thesis using ne by (subst G2 [OF 2]) (simp add: inPartition_def)
    next
      case 3
      then have "inPartition b Y x" using inY [OF x] by simp
      moreover have "cardId x \<notin> set F" using 3 disj sT by auto
      ultimately show ?thesis using ne by (subst G3 [OF 3]) (auto simp: inPartition_def)
    next
      case 4
      then have "cardId x \<notin> set ?FI" using sF sT by auto
      then have "\<not> inPartition b ?X x" using inX [OF x] by simp
      then show ?thesis using 4 by (subst G4 [OF 4]) simp
    qed
  qed
  have memY: "inPartition b Y (?G x) \<longleftrightarrow> cardId x \<in> set T" if x: "x \<in> set cs" for x
  proof -
    consider "cardId x \<in> set F" | "cardId x = i" | "cardId x \<in> set ?TI" | "cardId x \<notin> set F" "cardId x \<notin> set T"
      using cases by blast
    then show ?thesis
    proof cases
      case 1
      then have "inPartition b ?X x" using inX [OF x] sF by simp
      moreover have "cardId x \<notin> set T" using 1 disj by auto
      ultimately show ?thesis using ne by (subst G1 [OF 1]) (auto simp: inPartition_def)
    next
      case 2
      then have "x = c" using xc x by simp
      moreover have "cardId x \<in> set T" using 2 sT by simp
      ultimately show ?thesis using c by (subst G2 [OF 2]) (simp add: inPartition_def)
    next
      case 3
      then have "inPartition b Y x" using inY [OF x] by simp
      moreover have "cardId x \<in> set T" using 3 sT by simp
      ultimately show ?thesis by (subst G3 [OF 3]) (simp add: inPartition_def)
    next
      case 4
      then have "cardId x \<notin> set ?TI" using sT by auto
      then have "\<not> inPartition b Y x" using inY [OF x] by simp
      then show ?thesis using 4 by (subst G4 [OF 4]) simp
    qed
  qed
  have posX: "position (?G x) = int (indexOf F (cardId x))" if "cardId x \<in> set F" for x
    by (subst G1 [OF that]) simp
  have posY: "position (?G x) = int (indexOf T (cardId x))" if "cardId x \<in> set T" for x
  proof (cases "cardId x = i")
    case True
    then show ?thesis by (subst G2 [OF True]) simp
  next
    case False
    then have 3: "cardId x \<in> set ?TI" using that sT by simp
    show ?thesis by (subst G3 [OF 3]) simp
  qed
  show "idsIn cs' b ?X = F"
    unfolding r using D dF kG memX subF posX by (rule partition_after(1))
  show "map position (cardsIn cs' b ?X) = map int [0..<length F]"
    unfolding r using D dF kG memX subF posX by (rule partition_after(2))
  show "idsIn cs' b Y = T"
    unfolding r using D dT kG memY subT posY by (rule partition_after(1))
  show "map position (cardsIn cs' b Y) = map int [0..<length T]"
    unfolding r using D dT kG memY subT posY by (rule partition_after(2))
  show "cardsIn cs' b2 col2 = cardsIn cs b2 col2" if o: "b2 \<noteq> b \<or> (col2 \<noteq> ?X \<and> col2 \<noteq> Y)"
    unfolding r
  proof (rule partition_untouched)
    fix x assume x: "x \<in> set cs"
    consider "cardId x \<in> set F" | "cardId x = i" | "cardId x \<in> set ?TI" | "cardId x \<notin> set F" "cardId x \<notin> set T"
      using cases by blast
    then show "?G x = x \<or> (\<not> inPartition b2 col2 x \<and> \<not> inPartition b2 col2 (?G x))"
    proof cases
      case 1
      then have "inPartition b ?X x" using inX [OF x] sF by simp
      then show ?thesis using o by (subst G1 [OF 1]) (auto simp: inPartition_def)
    next
      case 2
      then have "x = c" using xc x by simp
      then show ?thesis using o c by (subst G2 [OF 2]) (auto simp: inPartition_def)
    next
      case 3
      then have "inPartition b Y x" using inY [OF x] by simp
      then show ?thesis using o by (subst G3 [OF 3]) (auto simp: inPartition_def)
    next
      case 4
      then show ?thesis by (subst G4 [OF 4]) simp
    qed
  qed
  show "findCard cs' i b = Some (c\<lparr>column := Y, position := clamp k 0 (int (length ?TI)),
                   updatedAt := now2 (nat (clamp k 0 (int (length ?TI))))\<rparr>)"
  proof -
    have ix: "int (indexOf T i) = clamp k 0 (int (length ?TI))"
      unfolding T_def rT using indexOf_insertAt [OF iTI, of k] clamp_range [of k "length ?TI"] by simp
    have "find (\<lambda>x. cardId x = i \<and> boardId x = b) (map ?G xs) = Some (?G c)"
      if "c \<in> set xs" "distinct (map cardId xs)" for xs
      using that
    proof (induction xs)
      case Nil
      then show ?case by simp
    next
      case (Cons a xs)
      show ?case
      proof (cases "a = c")
        case True
        have "cardId (?G c) = i \<and> boardId (?G c) = b"
          unfolding G2 [OF c(2)] using c by simp
        then show ?thesis using True by simp
      next
        case False
        then have "cardId a \<noteq> i" using Cons.prems c by (auto simp: image_iff)
        then have "cardId (?G a) \<noteq> i" using kG by simp
        moreover have "c \<in> set xs" "distinct (map cardId xs)" using False Cons.prems by auto
        ultimately show ?thesis using Cons.IH by simp
      qed
    qed
    then have "findCard cs' i b = Some (?G c)"
      unfolding findCard_def r using c(1) D by blast
    moreover have "?G c = c\<lparr>column := Y, position := int (indexOf T i), updatedAt := now2 (indexOf T i)\<rparr>"
      by (rule G2 [OF c(2)])
    moreover have "indexOf T i = nat (clamp k 0 (int (length ?TI)))" using ix by simp
    ultimately show ?thesis using ix by simp
  qed
qed

lemma moveCard_cross:
  assumes "isUuid i" and "0 \<le> k" and "findCard (cards d) i b = Some c" and "column c \<noteq> Y"
    and "transaction (positionWrites (setPosition now) (remove1 i (idsIn (cards d) b (column c)))
           @ positionWrites
               (setPositionColumn (\<lambda>j. now (length (remove1 i (idsIn (cards d) b (column c))) + j)) i Y)
               (insertAt k i (remove1 i (idsIn (cards d) b Y))))
           (cards d) = Some cs"
  shows "moveCard isUuid now b actor i Y k d =
           (Inr (), d\<lparr>cards := cs\<rparr>,
            [\<lparr>nCardId = i, nActorId = actor, nEvent = Moved,
              nFromColumn = Some (column c), nToColumn = Some Y\<rparr>])"
  using assms by (simp add: moveCard_def Let_def)

lemma moveCard_same:
  assumes "isUuid i" and "0 \<le> k" and "findCard (cards d) i b = Some c"
    and "transaction (positionWrites (setPosition now) (insertAt k i (remove1 i (idsIn (cards d) b (column c)))))
           (cards d) = Some cs"
  shows "moveCard isUuid now b actor i (column c) k d = (Inr (), d\<lparr>cards := cs\<rparr>, [])"
  using assms by (simp add: moveCard_def Let_def)

section \<open>Cross-column move\<close>

text \<open>
  Claim C2, as amended. A card \<open>c\<close> of the active board \<open>b\<close> is moved from its column,
  which holds the ids \<open>xs\<close> in order, to another column \<open>Y\<close>, which holds \<open>ys\<close>, at the
  requested index \<open>k\<close>. A negative index is refused by the schema: the answer is the
  validation error, nothing is written and nothing is notified. For an index from 0 on
  the request succeeds; the index used, \<^verbatim>\<open>clamp(k, 0, m)\<close>, is \<open>k\<close> itself up to the length
  \<open>m\<close> of \<open>ys\<close> and \<open>m\<close> beyond; the writes are one transaction that changes the card table
  only; the source column is left with \<open>xs\<close> minus the card, in the prior order, at
  positions 0 .. n - 2; the destination holds \<open>ys\<close>, in the prior order, with the card
  inserted at that index, at positions 0 .. m; and the card's row has the new column and
  that index as position.
\<close>

theorem move_cross_column:
  assumes D: "distinct (map cardId (cards d))"
    and u: "isUuid i"
    and f: "findCard (cards d) i b = Some c"
    and ne: "column c \<noteq> Y"
    and xs: "idsIn (cards d) b (column c) = xs" and ys: "idsIn (cards d) b Y = ys"
    and r: "moveCard isUuid now b actor i Y k d = (res, d', notes)"
  shows "(k < 0 \<longrightarrow> res = Inl ZodError \<and> d' = d \<and> notes = []) \<and>
    (0 \<le> k \<longrightarrow>
     res = Inr () \<and>
     clamp k 0 (int (length ys)) = min k (int (length ys)) \<and>
     transaction (positionWrites (setPosition now) (remove1 i xs)
                  @ positionWrites (setPositionColumn (\<lambda>j. now (length xs - 1 + j)) i Y) (insertAt k i ys))
         (cards d)
       = Some (cards d') \<and>
     d' = d\<lparr>cards := cards d'\<rparr> \<and>
     idsIn (cards d') b (column c) = remove1 i xs \<and>
     length (remove1 i xs) = length xs - 1 \<and>
     map position (cardsIn (cards d') b (column c)) = map int [0..<length xs - 1] \<and>
     idsIn (cards d') b Y
       = take (nat (min k (int (length ys)))) ys @ i # drop (nat (min k (int (length ys)))) ys \<and>
     map position (cardsIn (cards d') b Y) = map int [0..<length ys + 1] \<and>
     idsIn (cards d') b Y ! nat (min k (int (length ys))) = i \<and>
     findCard (cards d') i b
       = Some (c\<lparr>column := Y, position := min k (int (length ys)),
                updatedAt := now (length xs - 1 + nat (min k (int (length ys))))\<rparr>))"
proof (cases "k < 0")
  case True
  then have "moveCard isUuid now b actor i Y k d = (Inl ZodError, d, [])"
    using u by (simp add: moveCard_def)
  then have "res = Inl ZodError \<and> d' = d \<and> notes = []" using r by simp
  then show ?thesis using True by simp
next
  case False
  then have k: "0 \<le> k" by simp
  let ?F = "remove1 i (idsIn (cards d) b (column c))"
  let ?T = "insertAt k i (remove1 i (idsIn (cards d) b Y))"
  let ?now2 = "\<lambda>j. now (length ?F + j)"
  let ?cs = "renumbered (setPositionColumn ?now2 i Y) ?T (renumbered (setPosition now) ?F (cards d))"
  note cc = cross_column_cards [OF D f ne]
  have cl: "clamp k 0 (int (length ys)) = min k (int (length ys))"
    using k by (simp add: clamp_def)
  have rT: "remove1 i ys = ys" using cc(6) ys by simp
  have lenF: "length (remove1 i xs) = length xs - 1"
    using cc(7) xs by (simp add: length_remove1)
  have tx: "transaction (positionWrites (setPosition now) ?F @ positionWrites (setPositionColumn ?now2 i Y) ?T) (cards d) = Some ?cs"
    by (rule cc(1))
  have "moveCard isUuid now b actor i Y k d =
          (Inr (), d\<lparr>cards := ?cs\<rparr>,
           [\<lparr>nCardId = i, nActorId = actor, nEvent = Moved,
             nFromColumn = Some (column c), nToColumn = Some Y\<rparr>])"
    using u k f ne tx by (rule moveCard_cross)
  then have res: "res = Inr ()" and d': "d' = d\<lparr>cards := ?cs\<rparr>" using r by simp_all
  have cs: "cards d' = ?cs" using d' by simp
  have T: "?T = take (nat (clamp k 0 (int (length ys)))) ys @ i # drop (nat (clamp k 0 (int (length ys)))) ys"
    by (simp add: ys rT insertAt_def Let_def)
  have c1: "transaction (positionWrites (setPosition now) (remove1 i xs)
                  @ positionWrites (setPositionColumn (\<lambda>j. now (length xs - 1 + j)) i Y) (insertAt k i ys))
         (cards d)
       = Some (cards d')"
    using tx lenF by (simp add: cs xs ys rT)
  have c2: "d' = d\<lparr>cards := cards d'\<rparr>" using d' by simp
  have c3: "idsIn (cards d') b (column c) = remove1 i xs"
    using cc(2) [where k = k and now = now and ?now2.0 = ?now2] by (simp add: cs xs)
  have c4: "map position (cardsIn (cards d') b (column c)) = map int [0..<length xs - 1]"
    using cc(3) [where k = k and now = now and ?now2.0 = ?now2] lenF by (simp add: cs xs)
  have c5: "idsIn (cards d') b Y
       = take (nat (min k (int (length ys)))) ys @ i # drop (nat (min k (int (length ys)))) ys"
  proof -
    have "idsIn (cards d') b Y = ?T" unfolding cs by (rule cc(4))
    then show ?thesis by (simp only: T cl)
  qed
  have c6: "map position (cardsIn (cards d') b Y) = map int [0..<length ys + 1]"
    using cc(5) [where k = k and now = now and ?now2.0 = ?now2] by (simp add: cs ys rT length_insertAt)
  have c7: "idsIn (cards d') b Y ! nat (min k (int (length ys))) = i"
  proof -
    have "idsIn (cards d') b Y = insertAt k i ys" unfolding cs using cc(4) [where k = k and now = now and ?now2.0 = ?now2] by (simp add: ys rT)
    then show ?thesis using nth_insertAt [of k i ys] by (simp only: cl)
  qed
  have c8: "findCard (cards d') i b
       = Some (c\<lparr>column := Y, position := min k (int (length ys)),
                updatedAt := now (length xs - 1 + nat (min k (int (length ys))))\<rparr>)"
    using cc(9) [where k = k and now = now and ?now2.0 = ?now2] lenF by (simp add: cs xs ys cl)
  have "res = Inr () \<and>
     clamp k 0 (int (length ys)) = min k (int (length ys)) \<and>
     transaction (positionWrites (setPosition now) (remove1 i xs)
                  @ positionWrites (setPositionColumn (\<lambda>j. now (length xs - 1 + j)) i Y) (insertAt k i ys))
         (cards d)
       = Some (cards d') \<and>
     d' = d\<lparr>cards := cards d'\<rparr> \<and>
     idsIn (cards d') b (column c) = remove1 i xs \<and>
     length (remove1 i xs) = length xs - 1 \<and>
     map position (cardsIn (cards d') b (column c)) = map int [0..<length xs - 1] \<and>
     idsIn (cards d') b Y
       = take (nat (min k (int (length ys)))) ys @ i # drop (nat (min k (int (length ys)))) ys \<and>
     map position (cardsIn (cards d') b Y) = map int [0..<length ys + 1] \<and>
     idsIn (cards d') b Y ! nat (min k (int (length ys))) = i \<and>
     findCard (cards d') i b
       = Some (c\<lparr>column := Y, position := min k (int (length ys)),
                updatedAt := now (length xs - 1 + nat (min k (int (length ys))))\<rparr>)"
    using res cl c1 c2 c3 lenF c4 c5 c6 c7 c8 by blast
  then show ?thesis using False by blast
qed

theorem move_cross_column_witness:
  "distinct (map cardId (cards boardDemo)) \<and>
   findCard (cards boardDemo) ''c2'' ''b1'' = Some (mkCard ''c2'' ''b1'' BACKLOG 1) \<and>
   idsIn (cards boardDemo) ''b1'' BACKLOG = [''c1'', ''c2'', ''c3''] \<and>
   idsIn (cards boardDemo) ''b1'' TODO = [''c4'', ''c5''] \<and>
   fst (moveCard (\<lambda>_. True) (\<lambda>_. 1000) ''b1'' ''u1'' ''c2'' TODO 1 boardDemo) = Inr () \<and>
   idsIn (cards (fst (snd (moveCard (\<lambda>_. True) (\<lambda>_. 1000) ''b1'' ''u1'' ''c2'' TODO 1 boardDemo)))) ''b1'' BACKLOG
     = [''c1'', ''c3''] \<and>
   idsIn (cards (fst (snd (moveCard (\<lambda>_. True) (\<lambda>_. 1000) ''b1'' ''u1'' ''c2'' TODO 1 boardDemo)))) ''b1'' TODO
     = [''c4'', ''c2'', ''c5''] \<and>
   map position (cardsIn (cards (fst (snd (moveCard (\<lambda>_. True) (\<lambda>_. 1000) ''b1'' ''u1'' ''c2'' TODO 1 boardDemo)))) ''b1'' TODO)
     = [0, 1, 2] \<and>
   findCard (cards (fst (snd (moveCard (\<lambda>_. True) (\<lambda>_. 1000) ''b1'' ''u1'' ''c2'' TODO 1 boardDemo)))) ''c2'' ''b1''
     = Some ((mkCard ''c2'' ''b1'' TODO 1)\<lparr>updatedAt := 1000\<rparr>) \<and>
   idsIn (cards (fst (snd (moveCard (\<lambda>_. True) (\<lambda>_. 1000) ''b1'' ''u1'' ''c2'' TODO 0 boardDemo)))) ''b1'' TODO
     = [''c2'', ''c4'', ''c5''] \<and>
   idsIn (cards (fst (snd (moveCard (\<lambda>_. True) (\<lambda>_. 1000) ''b1'' ''u1'' ''c2'' TODO 7 boardDemo)))) ''b1'' TODO
     = [''c4'', ''c5'', ''c2''] \<and>
   findCard (cards (fst (snd (moveCard (\<lambda>_. True) (\<lambda>_. 1000) ''b1'' ''u1'' ''c2'' TODO 7 boardDemo)))) ''c2'' ''b1''
     = Some ((mkCard ''c2'' ''b1'' TODO 2)\<lparr>updatedAt := 1000\<rparr>) \<and>
   moveCard (\<lambda>_. True) (\<lambda>_. 1000) ''b1'' ''u1'' ''c2'' TODO (- 3) boardDemo = (Inl ZodError, boardDemo, [])"
proof -
  let ?r = "\<lambda>k. moveCard (\<lambda>_. True) (\<lambda>_. 1000) ''b1'' ''u1'' ''c2'' TODO k boardDemo"
  have D: "distinct (map cardId (cards boardDemo))" by (simp add: boardDemo_def mkCard_def)
  have f: "findCard (cards boardDemo) ''c2'' ''b1'' = Some (mkCard ''c2'' ''b1'' BACKLOG 1)"
    by (simp add: boardDemo_def mkCard_def findCard_def)
  have ne: "column (mkCard ''c2'' ''b1'' BACKLOG 1) \<noteq> TODO" by (simp add: mkCard_def)
  have xs: "idsIn (cards boardDemo) ''b1'' (column (mkCard ''c2'' ''b1'' BACKLOG 1)) = [''c1'', ''c2'', ''c3'']"
    by (simp add: boardDemo_def mkCard_def idsIn_def cardsIn_def)
  have ys: "idsIn (cards boardDemo) ''b1'' TODO = [''c4'', ''c5'']"
    by (simp add: boardDemo_def mkCard_def idsIn_def cardsIn_def)
  have r: "?r k = (fst (?r k), fst (snd (?r k)), snd (snd (?r k)))" for k by simp
  have u: "(\<lambda>_. True) ''c2''" by simp
  have col: "column (mkCard ''c2'' ''b1'' BACKLOG 1) = BACKLOG" by (simp add: mkCard_def)
  note t = move_cross_column [OF D u f ne xs ys r]
  have t1: "fst (?r 1) = Inr () \<and>
     idsIn (cards (fst (snd (?r 1)))) ''b1'' BACKLOG = [''c1'', ''c3''] \<and>
     idsIn (cards (fst (snd (?r 1)))) ''b1'' TODO = [''c4'', ''c2'', ''c5''] \<and>
     map position (cardsIn (cards (fst (snd (?r 1)))) ''b1'' TODO) = [0, 1, 2] \<and>
     findCard (cards (fst (snd (?r 1)))) ''c2'' ''b1''
       = Some ((mkCard ''c2'' ''b1'' TODO 1)\<lparr>updatedAt := 1000\<rparr>)"
    using t [of 1] unfolding col by (simp add: mkCard_def)
  have t0: "idsIn (cards (fst (snd (?r 0)))) ''b1'' TODO = [''c2'', ''c4'', ''c5'']"
    using t [of 0] unfolding col by simp
  have t7: "idsIn (cards (fst (snd (?r 7)))) ''b1'' TODO = [''c4'', ''c5'', ''c2''] \<and>
     findCard (cards (fst (snd (?r 7)))) ''c2'' ''b1''
       = Some ((mkCard ''c2'' ''b1'' TODO 2)\<lparr>updatedAt := 1000\<rparr>)"
    using t [of 7] unfolding col by (simp add: mkCard_def)
  have tn: "?r (- 3) = (Inl ZodError, boardDemo, [])"
    using t [of "- 3"] r [of "- 3"] by simp
  show ?thesis using D f xs ys t1 t0 t7 tn unfolding col by blast
qed

text \<open>
  The claim as it was stated, for every requested index: the request with index -1 is
  not clamped to 0 but refused, and the card stays in its column.
\<close>

theorem move_cross_column_counterexample:
  "clamp (- 1) 0 2 = 0 \<and>
   moveCard (\<lambda>_. True) (\<lambda>_. 1000) ''b1'' ''u1'' ''c2'' TODO (- 1) boardDemo = (Inl ZodError, boardDemo, []) \<and>
   idsIn (cards (fst (snd (moveCard (\<lambda>_. True) (\<lambda>_. 1000) ''b1'' ''u1'' ''c2'' TODO (- 1) boardDemo)))) ''b1'' TODO
     = [''c4'', ''c5'']"
proof -
  have m: "moveCard (\<lambda>_. True) (\<lambda>_. 1000) ''b1'' ''u1'' ''c2'' TODO (- 1) boardDemo = (Inl ZodError, boardDemo, [])"
    by (simp add: moveCard_def)
  have ys: "idsIn (cards boardDemo) ''b1'' TODO = [''c4'', ''c5'']"
    by (simp add: boardDemo_def mkCard_def idsIn_def cardsIn_def)
  have c: "clamp (- 1) 0 2 = 0" by (simp add: clamp_def)
  show ?thesis using c ys unfolding m by simp
qed

lemma moveCard_invalid:
  "\<not> isUuid i \<or> k < 0 \<Longrightarrow> moveCard isUuid now b actor i Y k d = (Inl ZodError, d, [])"
  by (auto simp: moveCard_def)

lemma moveCard_missing:
  "isUuid i \<Longrightarrow> 0 \<le> k \<Longrightarrow> findCard (cards d) i b = None \<Longrightarrow>
   moveCard isUuid now b actor i Y k d = (Inl (HttpError 404 ''Card not found''), d, [])"
  by (simp add: moveCard_def)

lemma moveCard_same_eq:
  "isUuid i \<Longrightarrow> 0 \<le> k \<Longrightarrow> findCard (cards d) i b = Some c \<Longrightarrow> column c = Y \<Longrightarrow>
   moveCard isUuid now b actor i Y k d =
     (case transaction (positionWrites (setPosition now) (insertAt k i (remove1 i (idsIn (cards d) b Y)))) (cards d) of
        None \<Rightarrow> (Inl InternalError, d, [])
      | Some cs \<Rightarrow> (Inr (), d\<lparr>cards := cs\<rparr>, []))"
  by (simp add: moveCard_def Let_def)

lemma moveCard_cross_eq:
  "isUuid i \<Longrightarrow> 0 \<le> k \<Longrightarrow> findCard (cards d) i b = Some c \<Longrightarrow> column c \<noteq> Y \<Longrightarrow>
   moveCard isUuid now b actor i Y k d =
     (case transaction (positionWrites (setPosition now) (remove1 i (idsIn (cards d) b (column c)))
             @ positionWrites
                 (setPositionColumn (\<lambda>j. now (length (remove1 i (idsIn (cards d) b (column c))) + j)) i Y)
                 (insertAt k i (remove1 i (idsIn (cards d) b Y))))
             (cards d) of
        None \<Rightarrow> (Inl InternalError, d, [])
      | Some cs \<Rightarrow>
          (Inr (), d\<lparr>cards := cs\<rparr>,
           [\<lparr>nCardId = i, nActorId = actor, nEvent = Moved,
             nFromColumn = Some (column c), nToColumn = Some Y\<rparr>]))"
  by (simp add: moveCard_def Let_def)

lemma moveCard_notes_cases:
  assumes r: "moveCard isUuid now b actor i Y k d = (res, d', notes)"
  shows "notes = [] \<or>
         (\<exists>c. findCard (cards d) i b = Some c \<and> column c \<noteq> Y \<and> res = Inr () \<and>
              notes = [\<lparr>nCardId = i, nActorId = actor, nEvent = Moved,
                        nFromColumn = Some (column c), nToColumn = Some Y\<rparr>])"
proof (cases "isUuid i \<and> 0 \<le> k")
  case False
  then have "\<not> isUuid i \<or> k < 0" by auto
  then show ?thesis using r by (simp add: moveCard_invalid)
next
  case ok: True
  show ?thesis
  proof (cases "findCard (cards d) i b")
    case None
    then show ?thesis using r ok by (simp add: moveCard_missing)
  next
    case (Some c)
    show ?thesis
    proof (cases "column c = Y")
      case True
      then show ?thesis using r ok Some by (simp add: moveCard_same_eq split: option.splits)
    next
      case False
      then show ?thesis using r ok Some by (simp add: moveCard_cross_eq split: option.splits)
    qed
  qed
qed

lemma moveCard_same_notes:
  assumes r: "moveCard isUuid now b actor i Y k d = (res, d', notes)"
    and f: "findCard (cards d) i b = Some c" and c: "column c = Y"
  shows "notes = []"
  using moveCard_notes_cases [OF r] f c by auto

lemma notify_frame:
  assumes "users d' = users d" and "participants d' = participants d"
    and "find (\<lambda>x. cardId x = nCardId n) (cards d') = Some c'"
  shows "notifyCardParticipants d' n =
          (let recipients = filter (\<lambda>e. e \<noteq> [])
                      (map email (filter (\<lambda>u. userId u \<noteq> nActorId n)
                         (List.map_filter
                            (\<lambda>p. if fst p = nCardId n then find (\<lambda>u. userId u = snd p) (users d) else None)
                            (participants d))))
                in if recipients = [] then None else Some recipients)"
proof -
  have "cardId c' = nCardId n" using assms(3) by (auto simp: find_Some_iff)
  then show ?thesis unfolding notifyCardParticipants_def assms by simp
qed

section \<open>Notifications of a move\<close>

text \<open>
  Claim C10. For a move request that finds its card \<open>c\<close> on the active board: when the
  destination column is the card's column, the handler dispatches no call of
  \<^verbatim>\<open>notifyCardParticipants\<close>, whatever happens to the order; when it is another column,
  a failed request dispatches none either, and the request (valid id, index \<ge> 0, on a
  table with distinct ids) succeeds and dispatches exactly one call, of event "moved"
  with the source and destination columns, whose mail goes to the addresses of the
  card's participants other than the actor.
\<close>

theorem move_notification:
  assumes r: "moveCard isUuid now b actor i Y k d = (res, d', notes)"
    and f: "findCard (cards d) i b = Some c"
  shows "(column c = Y \<longrightarrow> notes = []) \<and>
         (column c \<noteq> Y \<longrightarrow> res \<noteq> Inr () \<longrightarrow> notes = []) \<and>
         (column c \<noteq> Y \<longrightarrow> distinct (map cardId (cards d)) \<longrightarrow> isUuid i \<longrightarrow> 0 \<le> k \<longrightarrow>
            res = Inr () \<and>
            notes = [\<lparr>nCardId = i, nActorId = actor, nEvent = Moved,
                      nFromColumn = Some (column c), nToColumn = Some Y\<rparr>] \<and>
            list_all (\<lambda>n. notifyCardParticipants d' n =
               (let recipients = filter (\<lambda>e. e \<noteq> [])
                      (map email (filter (\<lambda>u. userId u \<noteq> actor)
                         (List.map_filter
                            (\<lambda>p. if fst p = i then find (\<lambda>u. userId u = snd p) (users d) else None)
                            (participants d))))
                in if recipients = [] then None else Some recipients)) notes)"
proof (intro conjI impI)
  assume "column c = Y"
  then show "notes = []" using moveCard_same_notes [OF r f] by simp
next
  assume "column c \<noteq> Y" "res \<noteq> Inr ()"
  then show "notes = []" using moveCard_notes_cases [OF r] by auto
next
  assume ne: "column c \<noteq> Y" and D: "distinct (map cardId (cards d))" and u: "isUuid i" and k: "0 \<le> k"
  let ?F = "remove1 i (idsIn (cards d) b (column c))"
  let ?T = "insertAt k i (remove1 i (idsIn (cards d) b Y))"
  let ?now2 = "\<lambda>j. now (length ?F + j)"
  let ?cs = "renumbered (setPositionColumn ?now2 i Y) ?T (renumbered (setPosition now) ?F (cards d))"
  let ?n = "\<lparr>nCardId = i, nActorId = actor, nEvent = Moved,
             nFromColumn = Some (column c), nToColumn = Some Y\<rparr>"
  note cc = cross_column_cards [OF D f ne]
  have "moveCard isUuid now b actor i Y k d = (Inr (), d\<lparr>cards := ?cs\<rparr>, [?n])"
    using u k f ne cc(1) [where k = k and now = now and ?now2.0 = ?now2] by (rule moveCard_cross)
  then have res: "res = Inr ()" and d': "d' = d\<lparr>cards := ?cs\<rparr>" and nt: "notes = [?n]"
    using r by simp_all
  show "res = Inr ()" by (rule res)
  show "notes = [?n]" by (rule nt)
  have "findCard (cards d') i b \<noteq> None" using cc(9) [where k = k and now = now and ?now2.0 = ?now2] d' by simp
  then obtain c' where c': "find (\<lambda>x. cardId x = i) (cards d') = Some c'" "cardId c' = i"
  proof -
    have "\<exists>x\<in>set (cards d'). cardId x = i"
      using \<open>findCard (cards d') i b \<noteq> None\<close> unfolding findCard_def find_None_iff by blast
    then have "find (\<lambda>x. cardId x = i) (cards d') \<noteq> None" unfolding find_None_iff by blast
    then obtain c' where "find (\<lambda>x. cardId x = i) (cards d') = Some c'" by blast
    moreover from this have "cardId c' = i" by (auto simp: find_Some_iff)
    ultimately show ?thesis using that by blast
  qed
  have "notifyCardParticipants d' ?n =
          (let recipients = filter (\<lambda>e. e \<noteq> [])
                      (map email (filter (\<lambda>u. userId u \<noteq> actor)
                         (List.map_filter
                            (\<lambda>p. if fst p = i then find (\<lambda>u. userId u = snd p) (users d) else None)
                            (participants d))))
                in if recipients = [] then None else Some recipients)"
    using notify_frame [of d' d ?n c'] c' d' by simp
  then show "list_all (\<lambda>n. notifyCardParticipants d' n =
               (let recipients = filter (\<lambda>e. e \<noteq> [])
                      (map email (filter (\<lambda>u. userId u \<noteq> actor)
                         (List.map_filter
                            (\<lambda>p. if fst p = i then find (\<lambda>u. userId u = snd p) (users d) else None)
                            (participants d))))
                in if recipients = [] then None else Some recipients)) notes"
    by (simp add: nt)
qed


theorem move_notification_witness:
  "snd (snd (moveCard (\<lambda>_. True) (\<lambda>_. 1000) ''b1'' ''u1'' ''c2'' BACKLOG 0 boardDemo)) = [] \<and>
   idsIn (cards boardDemo) ''b1'' BACKLOG = [''c1'', ''c2'', ''c3''] \<and>
   idsIn (cards (fst (snd (moveCard (\<lambda>_. True) (\<lambda>_. 1000) ''b1'' ''u1'' ''c2'' BACKLOG 0 boardDemo)))) ''b1'' BACKLOG
     = [''c2'', ''c1'', ''c3''] \<and>
   snd (snd (moveCard (\<lambda>_. True) (\<lambda>_. 1000) ''b1'' ''u1'' ''c2'' TODO 0 boardDemo))
     = [\<lparr>nCardId = ''c2'', nActorId = ''u1'', nEvent = Moved,
         nFromColumn = Some BACKLOG, nToColumn = Some TODO\<rparr>] \<and>
   notifyCardParticipants (fst (snd (moveCard (\<lambda>_. True) (\<lambda>_. 1000) ''b1'' ''u1'' ''c2'' TODO 0 boardDemo)))
     \<lparr>nCardId = ''c2'', nActorId = ''u1'', nEvent = Moved,
       nFromColumn = Some BACKLOG, nToColumn = Some TODO\<rparr> = Some [''ann@x.io'']"
proof -
  let ?same = "moveCard (\<lambda>_. True) (\<lambda>_. 1000) ''b1'' ''u1'' ''c2'' BACKLOG 0 boardDemo"
  let ?cross = "moveCard (\<lambda>_. True) (\<lambda>_. 1000) ''b1'' ''u1'' ''c2'' TODO 0 boardDemo"
  have D: "distinct (map cardId (cards boardDemo))" by (simp add: boardDemo_def mkCard_def)
  have f: "findCard (cards boardDemo) ''c2'' ''b1'' = Some (mkCard ''c2'' ''b1'' BACKLOG 1)"
    by (simp add: boardDemo_def mkCard_def findCard_def)
  have col: "column (mkCard ''c2'' ''b1'' BACKLOG 1) = BACKLOG" by (simp add: mkCard_def)
  have rs: "?same = (fst ?same, fst (snd ?same), snd (snd ?same))" by simp
  have rc: "?cross = (fst ?cross, fst (snd ?cross), snd (snd ?cross))" by simp
  have 1: "snd (snd ?same) = []"
    using move_notification [OF rs f] col by simp
  have 2: "snd (snd ?cross) = [\<lparr>nCardId = ''c2'', nActorId = ''u1'', nEvent = Moved,
         nFromColumn = Some BACKLOG, nToColumn = Some TODO\<rparr>]"
    using move_notification [OF rc f] col D by simp
  have us: "users boardDemo = [mkUser ''u1'' ''admin@local'' ''Root'' ADMIN, mkUser ''u2'' ''ann@x.io'' ''Ann'' MEMBER]"
    and ps: "participants boardDemo = [(''c2'', ''u1''), (''c2'', ''u2'')]"
    by (simp_all add: boardDemo_def)
  have "list_all (\<lambda>n. notifyCardParticipants (fst (snd ?cross)) n =
               (let recipients = filter (\<lambda>e. e \<noteq> [])
                      (map email (filter (\<lambda>u. userId u \<noteq> ''u1'')
                         (List.map_filter
                            (\<lambda>p. if fst p = ''c2'' then find (\<lambda>u. userId u = snd p) (users boardDemo) else None)
                            (participants boardDemo))))
                in if recipients = [] then None else Some recipients)) (snd (snd ?cross))"
    using move_notification [OF rc f] col D by auto
  moreover have "(let recipients = filter (\<lambda>e. e \<noteq> [])
                      (map email (filter (\<lambda>u. userId u \<noteq> ''u1'')
                         (List.map_filter
                            (\<lambda>p. if fst p = ''c2'' then find (\<lambda>u. userId u = snd p) (users boardDemo) else None)
                            (participants boardDemo))))
                in if recipients = [] then None else Some recipients) = Some [''ann@x.io'']"
    by (simp add: us ps mkUser_def List.map_filter_simps)
  ultimately have "list_all (\<lambda>n. notifyCardParticipants (fst (snd ?cross)) n = Some [''ann@x.io'']) (snd (snd ?cross))"
    by (simp only:)
  then have 3: "notifyCardParticipants (fst (snd ?cross))
     \<lparr>nCardId = ''c2'', nActorId = ''u1'', nEvent = Moved,
       nFromColumn = Some BACKLOG, nToColumn = Some TODO\<rparr> = Some [''ann@x.io'']"
    unfolding 2 by simp
  have 4: "idsIn (cards boardDemo) ''b1'' BACKLOG = [''c1'', ''c2'', ''c3'']"
    by (simp add: boardDemo_def mkCard_def idsIn_def cardsIn_def)
  have 5: "idsIn (cards (fst (snd ?same))) ''b1'' BACKLOG = [''c2'', ''c1'', ''c3'']"
    by (simp add: moveCard_def boardDemo_def mkCard_def findCard_def idsIn_def cardsIn_def
        positionWrites_def card_update_def insertAt_def clamp_def setPosition_def)
  show ?thesis using 1 2 3 4 5 by blast
qed

lemma reinsert_same:
  "distinct F \<Longrightarrow> n < length F \<Longrightarrow> insertAt (int n) (F ! n) (remove1 (F ! n) F) = F"
proof -
  assume d: "distinct F" and n: "n < length F"
  have len: "length (remove1 (F ! n) F) = length F - 1"
    using n by (simp add: length_remove1)
  have cl: "nat (clamp (int n) 0 (int (length F - 1))) = n"
    using n by (simp add: clamp_def)
  have "take n (remove1 (F ! n) F) @ F ! n # drop n (remove1 (F ! n) F) = F"
    using d n
  proof (induction F arbitrary: n)
    case Nil
    then show ?case by simp
  next
    case (Cons a F)
    show ?case
    proof (cases n)
      case 0
      then show ?thesis by simp
    next
      case (Suc m)
      then have "F ! m \<noteq> a" using Cons.prems by auto
      then show ?thesis using Suc Cons by simp
    qed
  qed
  then show ?thesis unfolding insertAt_def Let_def len cl .
qed

lemma dense_position:
  assumes D: "distinct (map cardId cs)" and dn: "dense cs b col"
    and x: "x \<in> set cs" and p: "inPartition b col x"
  shows "position x = int (indexOf (idsIn cs b col) (cardId x))"
proof -
  let ?ys = "cardsIn cs b col"
  have "x \<in> set ?ys" using x p by (simp add: cardsIn_alt)
  then obtain j where j: "j < length ?ys" "?ys ! j = x" by (auto simp: in_set_conv_nth)
  have "map position ?ys ! j = map int [0..<length ?ys] ! j" using dn by (simp add: dense_def)
  then have pos: "position x = int j" using j by simp
  have "idsIn cs b col ! j = cardId x" using j by (simp add: idsIn_def)
  moreover have "distinct (idsIn cs b col)" using D by (rule distinct_idsIn)
  moreover have "j < length (idsIn cs b col)" using j by (simp add: idsIn_def)
  ultimately have "indexOf (idsIn cs b col) (cardId x) = j" using indexOf_nth by metis
  then show ?thesis using pos by simp
qed

lemma renumbered_dense:
  assumes D: "distinct (map cardId cs)" and dn: "dense cs b col"
  shows "renumbered (setPosition now) (idsIn cs b col) cs
           = map (\<lambda>x. if inPartition b col x then x\<lparr>updatedAt := now (nat (position x))\<rparr> else x) cs"
proof -
  have "(if cardId x \<in> set (idsIn cs b col)
         then setPosition now (indexOf (idsIn cs b col) (cardId x)) (cardId x) x else x)
        = (if inPartition b col x then x\<lparr>updatedAt := now (nat (position x))\<rparr> else x)"
    if x: "x \<in> set cs" for x
  proof (cases "cardId x \<in> set (idsIn cs b col)")
    case True
    then have p: "inPartition b col x" using id_in_partition [OF D x] by simp
    then have "position x = int (indexOf (idsIn cs b col) (cardId x))"
      using dense_position [OF D dn x] by simp
    then have "setPosition now (indexOf (idsIn cs b col) (cardId x)) (cardId x) x
                 = x\<lparr>updatedAt := now (nat (position x))\<rparr>"
      by (simp add: setPosition_def)
    then show ?thesis using True p by simp
  next
    case False
    then have "\<not> inPartition b col x" using id_in_partition [OF D x] by simp
    then show ?thesis using False by simp
  qed
  then show ?thesis unfolding renumbered_def by (rule map_cong [OF refl])
qed

lemma length_positionWrites: "length (positionWrites f ids) = length ids"
  by (simp add: positionWrites_def)

section \<open>Moving a card to where it is\<close>

text \<open>
  Claim C8, as amended. A request that moves a card within its own column (valid id,
  index from 0 on, a table with distinct ids) succeeds and dispatches no notification.
  The handler has no shortcut for a card that stays where it is: in one transaction it
  issues one position write for every id of the column, and afterwards the column holds
  positions 0 .. n - 1 in the order requested, whether or not it did before. When the
  positions of the column are dense and the index requested is the one the card has,
  that index is the card's position, the order requested is the order the column has,
  and every write puts back the position already there: no card changes its position or
  column, and nothing changes outside the card table. The database is still not left as
  it was, because each write stamps its row: every card of the column gets the time of
  its write as \<^verbatim>\<open>updatedAt\<close>, and nothing else differs.
\<close>

theorem move_to_own_place:
  assumes D: "distinct (map cardId (cards d))" and u: "isUuid i"
    and f: "findCard (cards d) i b = Some c"
    and k0: "0 \<le> k"
    and r: "moveCard isUuid now b actor i (column c) k d = (res, d', notes)"
  shows "res = Inr () \<and> notes = [] \<and> d' = d\<lparr>cards := cards d'\<rparr> \<and>
     transaction
       (positionWrites (setPosition now) (insertAt k i (remove1 i (idsIn (cards d) b (column c)))))
       (cards d) = Some (cards d') \<and>
     length (positionWrites (setPosition now) (insertAt k i (remove1 i (idsIn (cards d) b (column c)))))
       = length (idsIn (cards d) b (column c)) \<and>
     idsIn (cards d') b (column c) = insertAt k i (remove1 i (idsIn (cards d) b (column c))) \<and>
     map position (cardsIn (cards d') b (column c))
       = map int [0..<length (idsIn (cards d) b (column c))] \<and>
     (dense (cards d) b (column c) \<and> nat k < length (idsIn (cards d) b (column c)) \<and>
      idsIn (cards d) b (column c) ! nat k = i \<longrightarrow>
        position c = k \<and>
        insertAt k i (remove1 i (idsIn (cards d) b (column c))) = idsIn (cards d) b (column c) \<and>
        cards d' = map (\<lambda>x. if inPartition b (column c) x then x\<lparr>updatedAt := now (nat (position x))\<rparr> else x)
                      (cards d) \<and>
        map position (cards d') = map position (cards d) \<and>
        map column (cards d') = map column (cards d))"
proof -
  let ?F = "idsIn (cards d) b (column c)"
  let ?L = "insertAt k i (remove1 i ?F)"
  let ?cs = "renumbered (setPosition now) ?L (cards d)"
  note sc = same_column_cards [OF D f, where k = k and now = now]
  have c: "c \<in> set (cards d)" "cardId c = i" "boardId c = b" using findCard_Some [OF f] by simp_all
  have dF: "distinct ?F" using D by (rule distinct_idsIn)
  have iF: "i \<in> set ?F"
    using id_in_partition [OF D c(1), of b "column c"] c by (simp add: inPartition_def)
  have "moveCard isUuid now b actor i (column c) k d = (Inr (), d\<lparr>cards := ?cs\<rparr>, [])"
    using u k0 f sc(1) by (rule moveCard_same)
  then have res: "res = Inr ()" and nt: "notes = []" and d': "d' = d\<lparr>cards := ?cs\<rparr>"
    using r by simp_all
  have cs: "cards d' = ?cs" using d' by simp
  have 1: "d' = d\<lparr>cards := cards d'\<rparr>" using d' by simp
  have 2: "transaction (positionWrites (setPosition now) ?L) (cards d) = Some (cards d')"
    unfolding cs by (rule sc(1))
  have len: "length ?L = length ?F"
    using iF length_pos_if_in_set [OF iF] by (simp add: length_insertAt length_remove1)
  have 3: "length (positionWrites (setPosition now) ?L) = length ?F"
    by (simp only: length_positionWrites len)
  have 4: "idsIn (cards d') b (column c) = ?L" unfolding cs by (rule sc(2))
  have 5: "map position (cardsIn (cards d') b (column c)) = map int [0..<length ?F]"
    unfolding cs using sc(3) by (simp only: len)
  have 6: "position c = k \<and> ?L = ?F \<and>
        cards d' = map (\<lambda>x. if inPartition b (column c) x then x\<lparr>updatedAt := now (nat (position x))\<rparr> else x)
                      (cards d) \<and>
        map position (cards d') = map position (cards d) \<and>
        map column (cards d') = map column (cards d)"
    if dn: "dense (cards d) b (column c)" and k1: "nat k < length ?F" and k2: "?F ! nat k = i"
  proof -
    have "insertAt (int (nat k)) (?F ! nat k) (remove1 (?F ! nat k) ?F) = ?F"
      using dF k1 by (rule reinsert_same)
    then have L: "?L = ?F" using k0 k2 by simp
    have "position c = int (indexOf ?F (cardId c))"
      using dense_position [OF D dn c(1)] c by (simp add: inPartition_def)
    also have "indexOf ?F (cardId c) = nat k"
      using indexOf_nth [OF dF k1] k2 c by simp
    finally have p: "position c = k" using k0 by simp
    have e: "cards d' = map (\<lambda>x. if inPartition b (column c) x then x\<lparr>updatedAt := now (nat (position x))\<rparr> else x)
                      (cards d)"
      unfolding cs L by (rule renumbered_dense [OF D dn])
    have mp: "map position (cards d') = map position (cards d)"
      unfolding e by (induction "cards d") simp_all
    have mc: "map column (cards d') = map column (cards d)"
      unfolding e by (induction "cards d") simp_all
    show ?thesis using p L e mp mc by blast
  qed
  show ?thesis using res nt 1 2 3 4 5 6 by blast
qed

theorem move_to_own_place_witness:
  "distinct (map cardId (cards boardDemo)) \<and>
   findCard (cards boardDemo) ''c2'' ''b1'' = Some (mkCard ''c2'' ''b1'' BACKLOG 1) \<and>
   dense (cards boardDemo) ''b1'' BACKLOG \<and>
   idsIn (cards boardDemo) ''b1'' BACKLOG ! 1 = ''c2'' \<and>
   fst (moveCard (\<lambda>_. True) (\<lambda>j. 1000 + int j) ''b1'' ''u1'' ''c2'' BACKLOG 1 boardDemo) = Inr () \<and>
   snd (snd (moveCard (\<lambda>_. True) (\<lambda>j. 1000 + int j) ''b1'' ''u1'' ''c2'' BACKLOG 1 boardDemo)) = [] \<and>
   cards (fst (snd (moveCard (\<lambda>_. True) (\<lambda>j. 1000 + int j) ''b1'' ''u1'' ''c2'' BACKLOG 1 boardDemo)))
     = [(mkCard ''c1'' ''b1'' BACKLOG 0)\<lparr>updatedAt := 1000\<rparr>,
        (mkCard ''c2'' ''b1'' BACKLOG 1)\<lparr>updatedAt := 1001\<rparr>,
        (mkCard ''c3'' ''b1'' BACKLOG 2)\<lparr>updatedAt := 1002\<rparr>,
        mkCard ''c4'' ''b1'' TODO 0, mkCard ''c5'' ''b1'' TODO 1, mkCard ''c6'' ''b2'' BACKLOG 0] \<and>
   map position (cards (fst (snd (moveCard (\<lambda>_. True) (\<lambda>j. 1000 + int j) ''b1'' ''u1'' ''c2'' BACKLOG 1 boardDemo))))
     = map position (cards boardDemo)"
proof -
  let ?r = "moveCard (\<lambda>_. True) (\<lambda>j. 1000 + int j) ''b1'' ''u1'' ''c2'' BACKLOG 1 boardDemo"
  have cs: "cards boardDemo
      = [mkCard ''c1'' ''b1'' BACKLOG 0, mkCard ''c2'' ''b1'' BACKLOG 1,
         mkCard ''c3'' ''b1'' BACKLOG 2, mkCard ''c4'' ''b1'' TODO 0,
         mkCard ''c5'' ''b1'' TODO 1, mkCard ''c6'' ''b2'' BACKLOG 0]"
    by (simp add: boardDemo_def)
  have D: "distinct (map cardId (cards boardDemo))" by (simp add: cs mkCard_def)
  have f: "findCard (cards boardDemo) ''c2'' ''b1'' = Some (mkCard ''c2'' ''b1'' BACKLOG 1)"
    by (simp add: cs mkCard_def findCard_def)
  have col: "column (mkCard ''c2'' ''b1'' BACKLOG 1) = BACKLOG" by (simp add: mkCard_def)
  have F: "idsIn (cards boardDemo) ''b1'' BACKLOG = [''c1'', ''c2'', ''c3'']"
    by (simp add: cs mkCard_def idsIn_def cardsIn_def)
  have dn: "dense (cards boardDemo) ''b1'' BACKLOG"
    by (simp add: dense_def cs mkCard_def cardsIn_def upt_rec)
  have u: "(\<lambda>_. True) ''c2''" by simp
  have k0: "(0::int) \<le> 1" by simp
  have r: "moveCard (\<lambda>_. True) (\<lambda>j. 1000 + int j) ''b1'' ''u1'' ''c2'' (column (mkCard ''c2'' ''b1'' BACKLOG 1)) 1 boardDemo
             = (fst ?r, fst (snd ?r), snd (snd ?r))"
    unfolding col by simp
  note t = move_to_own_place [OF D u f k0 r, unfolded col]
  have own: "dense (cards boardDemo) ''b1'' BACKLOG \<and>
      nat 1 < length (idsIn (cards boardDemo) ''b1'' BACKLOG) \<and>
      idsIn (cards boardDemo) ''b1'' BACKLOG ! nat 1 = ''c2''"
    using dn by (simp add: F)
  have 1: "fst ?r = Inr ()" using t by (rule conjunct1)
  have 2: "snd (snd ?r) = []" using t by blast
  have e: "cards (fst (snd ?r))
      = map (\<lambda>x. if inPartition ''b1'' BACKLOG x then x\<lparr>updatedAt := 1000 + int (nat (position x))\<rparr> else x)
          (cards boardDemo)"
    and mp: "map position (cards (fst (snd ?r))) = map position (cards boardDemo)"
    using t own by blast+
  have 3: "cards (fst (snd ?r))
     = [(mkCard ''c1'' ''b1'' BACKLOG 0)\<lparr>updatedAt := 1000\<rparr>,
        (mkCard ''c2'' ''b1'' BACKLOG 1)\<lparr>updatedAt := 1001\<rparr>,
        (mkCard ''c3'' ''b1'' BACKLOG 2)\<lparr>updatedAt := 1002\<rparr>,
        mkCard ''c4'' ''b1'' TODO 0, mkCard ''c5'' ''b1'' TODO 1, mkCard ''c6'' ''b2'' BACKLOG 0]"
    unfolding e by (simp add: cs mkCard_def inPartition_def)
  have 4: "idsIn (cards boardDemo) ''b1'' BACKLOG ! 1 = ''c2''" by (simp add: F)
  show ?thesis using D f dn 4 1 2 3 mp by blast
qed

text \<open>
  As stated the claim fails. After a delete the backlog holds positions 1 and 2; moving
  its first card to index 0 rewrites them to 0 and 1, and moving it to the index equal to
  its position, 1, swaps the two cards. On a dense column the request for the card's own
  index still issues one write per card, and the table is not what it was.
\<close>

theorem move_to_own_place_counterexample:
  "idsIn (cards gapDemo) ''b1'' BACKLOG = [''c2'', ''c3''] \<and>
   map position (cardsIn (cards gapDemo) ''b1'' BACKLOG) = [1, 2] \<and>
   fst (moveCard (\<lambda>_. True) (\<lambda>_. 1000) ''b1'' ''u1'' ''c2'' BACKLOG 0 gapDemo) = Inr () \<and>
   map position (cardsIn (cards (fst (snd (moveCard (\<lambda>_. True) (\<lambda>_. 1000) ''b1'' ''u1'' ''c2'' BACKLOG 0 gapDemo))))
      ''b1'' BACKLOG) = [0, 1] \<and>
   map position (cards (fst (snd (moveCard (\<lambda>_. True) (\<lambda>_. 1000) ''b1'' ''u1'' ''c2'' BACKLOG 0 gapDemo))))
     \<noteq> map position (cards gapDemo) \<and>
   idsIn (cards (fst (snd (moveCard (\<lambda>_. True) (\<lambda>_. 1000) ''b1'' ''u1'' ''c2'' BACKLOG 1 gapDemo)))) ''b1'' BACKLOG
     = [''c3'', ''c2''] \<and>
   length (positionWrites (setPosition (\<lambda>_. 1000))
             (insertAt 1 ''c2'' (remove1 ''c2'' (idsIn (cards boardDemo) ''b1'' BACKLOG)))) = 3 \<and>
   cards (fst (snd (moveCard (\<lambda>_. True) (\<lambda>_. 1000) ''b1'' ''u1'' ''c2'' BACKLOG 1 boardDemo))) \<noteq> cards boardDemo"
proof -
  have g: "cards gapDemo =
             [mkCard ''c2'' ''b1'' BACKLOG 1, mkCard ''c3'' ''b1'' BACKLOG 2, mkCard ''c4'' ''b1'' TODO 0,
              mkCard ''c5'' ''b1'' TODO 1, mkCard ''c6'' ''b2'' BACKLOG 0]"
    by (simp add: gapDemo_def deleteCard_def boardDemo_def mkCard_def findCard_def)
  have 1: "idsIn (cards gapDemo) ''b1'' BACKLOG = [''c2'', ''c3'']"
    by (simp add: g mkCard_def idsIn_def cardsIn_def)
  have 2: "map position (cardsIn (cards gapDemo) ''b1'' BACKLOG) = [1, 2]"
    by (simp add: g mkCard_def cardsIn_def)
  have m0: "moveCard (\<lambda>_. True) (\<lambda>_. 1000) ''b1'' ''u1'' ''c2'' BACKLOG 0 gapDemo =
          (Inr (), gapDemo\<lparr>cards :=
             [(mkCard ''c2'' ''b1'' BACKLOG 0)\<lparr>updatedAt := 1000\<rparr>,
              (mkCard ''c3'' ''b1'' BACKLOG 1)\<lparr>updatedAt := 1000\<rparr>, mkCard ''c4'' ''b1'' TODO 0,
              mkCard ''c5'' ''b1'' TODO 1, mkCard ''c6'' ''b2'' BACKLOG 0]\<rparr>, [])"
    by (simp add: moveCard_def g mkCard_def findCard_def idsIn_def cardsIn_def
        positionWrites_def card_update_def insertAt_def clamp_def setPosition_def)
  have m1: "moveCard (\<lambda>_. True) (\<lambda>_. 1000) ''b1'' ''u1'' ''c2'' BACKLOG 1 gapDemo =
          (Inr (), gapDemo\<lparr>cards :=
             [(mkCard ''c2'' ''b1'' BACKLOG 1)\<lparr>updatedAt := 1000\<rparr>,
              (mkCard ''c3'' ''b1'' BACKLOG 0)\<lparr>updatedAt := 1000\<rparr>, mkCard ''c4'' ''b1'' TODO 0,
              mkCard ''c5'' ''b1'' TODO 1, mkCard ''c6'' ''b2'' BACKLOG 0]\<rparr>, [])"
    by (simp add: moveCard_def g mkCard_def findCard_def idsIn_def cardsIn_def
        positionWrites_def card_update_def insertAt_def clamp_def setPosition_def)
  have b1: "moveCard (\<lambda>_. True) (\<lambda>_. 1000) ''b1'' ''u1'' ''c2'' BACKLOG 1 boardDemo =
          (Inr (), boardDemo\<lparr>cards :=
             [(mkCard ''c1'' ''b1'' BACKLOG 0)\<lparr>updatedAt := 1000\<rparr>,
              (mkCard ''c2'' ''b1'' BACKLOG 1)\<lparr>updatedAt := 1000\<rparr>,
              (mkCard ''c3'' ''b1'' BACKLOG 2)\<lparr>updatedAt := 1000\<rparr>, mkCard ''c4'' ''b1'' TODO 0,
              mkCard ''c5'' ''b1'' TODO 1, mkCard ''c6'' ''b2'' BACKLOG 0]\<rparr>, [])"
    by (simp add: moveCard_def boardDemo_def mkCard_def findCard_def idsIn_def cardsIn_def
        positionWrites_def card_update_def insertAt_def clamp_def setPosition_def)
  have 3: "fst (moveCard (\<lambda>_. True) (\<lambda>_. 1000) ''b1'' ''u1'' ''c2'' BACKLOG 0 gapDemo) = Inr ()"
    by (simp add: m0)
  have 4: "map position (cardsIn (cards (fst (snd (moveCard (\<lambda>_. True) (\<lambda>_. 1000) ''b1'' ''u1'' ''c2'' BACKLOG 0 gapDemo))))
      ''b1'' BACKLOG) = [0, 1]"
    by (simp add: m0 mkCard_def cardsIn_def)
  have 5: "idsIn (cards (fst (snd (moveCard (\<lambda>_. True) (\<lambda>_. 1000) ''b1'' ''u1'' ''c2'' BACKLOG 1 gapDemo)))) ''b1'' BACKLOG
     = [''c3'', ''c2'']"
    by (simp add: m1 mkCard_def idsIn_def cardsIn_def)
  have 6: "length (positionWrites (setPosition (\<lambda>_. 1000))
             (insertAt 1 ''c2'' (remove1 ''c2'' (idsIn (cards boardDemo) ''b1'' BACKLOG)))) = 3"
    by (simp add: boardDemo_def mkCard_def idsIn_def cardsIn_def positionWrites_def insertAt_def clamp_def)
  have 7: "map position (cards (fst (snd (moveCard (\<lambda>_. True) (\<lambda>_. 1000) ''b1'' ''u1'' ''c2'' BACKLOG 0 gapDemo))))
     \<noteq> map position (cards gapDemo)"
    by (simp add: m0 g mkCard_def)
  have 8: "cards (fst (snd (moveCard (\<lambda>_. True) (\<lambda>_. 1000) ''b1'' ''u1'' ''c2'' BACKLOG 1 boardDemo))) \<noteq> cards boardDemo"
  proof -
    have bc: "cards boardDemo
      = [mkCard ''c1'' ''b1'' BACKLOG 0, mkCard ''c2'' ''b1'' BACKLOG 1,
         mkCard ''c3'' ''b1'' BACKLOG 2, mkCard ''c4'' ''b1'' TODO 0,
         mkCard ''c5'' ''b1'' TODO 1, mkCard ''c6'' ''b2'' BACKLOG 0]"
      by (simp add: boardDemo_def)
    show ?thesis unfolding b1 by (simp add: bc mkCard_def)
  qed
  show ?thesis using 1 2 3 4 5 6 7 8 by blast
qed

section \<open>Density of positions\<close>

lemma dense_alt:
  "dense cs b col \<longleftrightarrow>
     distinct (map position (filter (inPartition b col) cs)) \<and>
     set (map position (filter (inPartition b col) cs))
       = int ` {0..<length (filter (inPartition b col) cs)}"
proof -
  let ?xs = "filter (inPartition b col) cs"
  let ?ys = "sort_key position ?xs"
  have s: "set (map position ?ys) = set (map position ?xs)" by simp
  have d: "distinct (map position ?ys) = distinct (map position ?xs)" by (rule distinct_map_sort_key)
  show ?thesis
  proof
    assume "dense cs b col"
    then have e: "map position ?ys = map int [0..<length ?xs]" by (simp add: dense_def cardsIn_alt)
    have "distinct (map position ?ys)" unfolding e by (simp add: distinct_map)
    moreover have "set (map position ?ys) = int ` {0..<length ?xs}" unfolding e by simp
    ultimately show "distinct (map position ?xs) \<and> set (map position ?xs) = int ` {0..<length ?xs}"
      using s d by simp
  next
    assume a: "distinct (map position ?xs) \<and> set (map position ?xs) = int ` {0..<length ?xs}"
    have "sorted (map position ?ys)" by (rule sorted_sort_key)
    moreover have "distinct (map position ?ys)" using a d by simp
    moreover have "set (map position ?ys) = int ` {0..<length ?xs}" using a s by simp
    ultimately have "map position ?ys = map int [0..<length ?xs]" by (rule sorted_upt_int_unique)
    then show "dense cs b col" by (simp add: dense_def cardsIn_alt)
  qed
qed

lemma dense_imp_distinctPositions: "dense cs b col \<Longrightarrow> distinctPositions cs b col"
  by (simp add: dense_alt distinctPositions_def)

lemma dense_empty: "filter (inPartition b col) cs = [] \<Longrightarrow> dense cs b col"
  unfolding dense_alt by simp

lemma denseAll_iff: "denseAll cs \<longleftrightarrow> (\<forall>b col. dense cs b col)"
proof
  assume a: "denseAll cs"
  show "\<forall>b col. dense cs b col"
  proof (intro allI)
    fix b col
    show "dense cs b col"
    proof (cases "filter (inPartition b col) cs = []")
      case True
      then show ?thesis by (rule dense_empty)
    next
      case False
      then obtain c where "c \<in> set cs" "inPartition b col c"
        by (metis filter_False)
      then show ?thesis using a by (auto simp: denseAll_def list_all_iff inPartition_def)
    qed
  qed
next
  assume "\<forall>b col. dense cs b col"
  then show "denseAll cs" by (simp add: denseAll_def list_all_iff)
qed

lemma cardsIn_eq_dense:
  "cardsIn cs' b col = cardsIn cs b col \<Longrightarrow> dense cs' b col = dense cs b col"
  by (simp add: dense_def)

lemma cardsIn_eq_distinctPositions:
  assumes "cardsIn cs' b col = cardsIn cs b col"
  shows "distinctPositions cs' b col = distinctPositions cs b col"
proof -
  have "distinct (map position (cardsIn xs b col)) = distinctPositions xs b col" for xs
    unfolding cardsIn_alt distinctPositions_def by (rule distinct_map_sort_key)
  then show ?thesis using assms by metis
qed

lemma maxPosition_None: "maxPosition cs b col = None \<longleftrightarrow> filter (inPartition b col) cs = []"
proof -
  have e: "(\<lambda>c. boardId c = b \<and> column c = col) = inPartition b col"
    by (rule ext) (simp add: inPartition_def)
  show ?thesis unfolding maxPosition_def e by (simp split: list.splits)
qed

lemma maxPosition_Some:
  assumes "maxPosition cs b col = Some m"
  shows "m = Max (set (map position (filter (inPartition b col) cs)))"
proof -
  have e: "(\<lambda>c. boardId c = b \<and> column c = col) = inPartition b col"
    by (rule ext) (simp add: inPartition_def)
  from assms obtain c rest where f: "filter (inPartition b col) cs = c # rest"
    and m: "m = fold max (map position rest) (position c)"
    unfolding maxPosition_def e by (auto split: list.splits)
  have "Max (set (position c # map position rest)) = fold max (map position rest) (position c)"
    by (rule Max.set_eq_fold)
  then show ?thesis using f m by simp
qed

lemma nextPosition_fresh:
  "nextPosition cs b col \<notin> set (map position (filter (inPartition b col) cs))"
proof (cases "maxPosition cs b col")
  case None
  then show ?thesis using maxPosition_None by simp
next
  case (Some m)
  let ?A = "set (map position (filter (inPartition b col) cs))"
  have m: "m = Max ?A" using maxPosition_Some [OF Some] .
  have "x \<le> m" if "x \<in> ?A" for x unfolding m using that by (intro Max_ge) simp_all
  then have "m + 1 \<notin> ?A" by force
  then show ?thesis using Some by (simp add: nextPosition_def)
qed

lemma nextPosition_dense:
  assumes "dense cs b col"
  shows "nextPosition cs b col = int (length (filter (inPartition b col) cs))"
proof (cases "maxPosition cs b col")
  case None
  then show ?thesis using maxPosition_None [of cs b col] by (simp add: nextPosition_def)
next
  case (Some m)
  let ?xs = "filter (inPartition b col) cs"
  have ne: "?xs \<noteq> []" using Some maxPosition_None [of cs b col] by auto
  then have n: "0 < length ?xs" by simp
  have A: "set (map position ?xs) = int ` {0..<length ?xs}" using assms by (simp add: dense_alt)
  have "Max (int ` {0..<length ?xs}) = int (length ?xs - 1)"
  proof (rule Max_eqI)
    show "finite (int ` {0..<length ?xs})" by simp
    show "int (length ?xs - 1) \<in> int ` {0..<length ?xs}" using n by auto
    fix y assume "y \<in> int ` {0..<length ?xs}"
    then show "y \<le> int (length ?xs - 1)" by auto
  qed
  then have "m = int (length ?xs - 1)" using maxPosition_Some [OF Some] A by simp
  then show ?thesis using Some n by (simp add: nextPosition_def)
qed

lemma append_other_partition:
  "\<not> inPartition b col c \<Longrightarrow> cardsIn (cs @ [c]) b col = cardsIn cs b col"
  by (simp add: cardsIn_alt)

lemma append_dense:
  assumes "dense cs b col" and "inPartition b col c" and "position c = nextPosition cs b col"
  shows "dense (cs @ [c]) b col"
proof -
  let ?xs = "filter (inPartition b col) cs"
  have p: "position c = int (length ?xs)" using assms(3) nextPosition_dense [OF assms(1)] by simp
  have a: "distinct (map position ?xs)" "set (map position ?xs) = int ` {0..<length ?xs}"
    using assms(1) by (simp_all add: dense_alt)
  have f: "filter (inPartition b col) (cs @ [c]) = ?xs @ [c]" using assms(2) by simp
  have "int ` {0..<Suc (length ?xs)} = insert (int (length ?xs)) (int ` {0..<length ?xs})"
    by (simp add: atLeast0_lessThan_Suc)
  then show ?thesis unfolding dense_alt f using a p by auto
qed

lemma append_distinctPositions:
  assumes "distinctPositions cs b col" and "inPartition b col c" and "position c = nextPosition cs b col"
  shows "distinctPositions (cs @ [c]) b col"
  using assms nextPosition_fresh [of cs b col] by (simp add: distinctPositions_def)


lemma distinctPositionsAll_iff: "distinctPositionsAll cs \<longleftrightarrow> (\<forall>b col. distinctPositions cs b col)"
proof
  assume a: "distinctPositionsAll cs"
  show "\<forall>b col. distinctPositions cs b col"
  proof (intro allI)
    fix b col
    show "distinctPositions cs b col"
    proof (cases "filter (inPartition b col) cs = []")
      case True
      then show ?thesis by (simp add: distinctPositions_def)
    next
      case False
      then obtain c where "c \<in> set cs" "inPartition b col c"
        by (metis filter_False)
      then show ?thesis using a by (auto simp: distinctPositionsAll_def list_all_iff inPartition_def)
    qed
  qed
next
  assume "\<forall>b col. distinctPositions cs b col"
  then show "distinctPositionsAll cs" by (simp add: distinctPositionsAll_def list_all_iff)
qed

lemma dense_from:
  assumes "idsIn cs b col = L" and "map position (cardsIn cs b col) = map int [0..<length L]"
  shows "dense cs b col"
proof -
  have "length (cardsIn cs b col) = length L" using assms(1) by (auto simp: idsIn_def)
  then show ?thesis using assms(2) by (simp add: dense_def)
qed

lemma createCard_cards:
  "cards (snd (createCard now b a n ds col d)) = cards d \<or>
   (n \<notin> set (map cardId (cards d)) \<and>
    (\<exists>c. cards (snd (createCard now b a n ds col d)) = cards d @ [c] \<and> cardId c = n \<and>
         inPartition b col c \<and> position c = nextPosition (cards d) b col))"
  by (simp add: createCard_def Let_def inPartition_def)

lemma create_partitions:
  assumes D: "distinct (map cardId (cards d))"
  shows "distinct (map cardId (cards (snd (createCard now b a n ds col d)))) \<and>
         (dense (cards d) b2 col2 \<longrightarrow> dense (cards (snd (createCard now b a n ds col d))) b2 col2) \<and>
         (distinctPositions (cards d) b2 col2 \<longrightarrow>
            distinctPositions (cards (snd (createCard now b a n ds col d))) b2 col2)"
proof -
  let ?d' = "snd (createCard now b a n ds col d)"
  consider "cards ?d' = cards d"
    | c where "n \<notin> set (map cardId (cards d))" "cards ?d' = cards d @ [c]" "cardId c = n"
        "inPartition b col c" "position c = nextPosition (cards d) b col"
    using createCard_cards [of now b a n ds col d] by blast
  then show ?thesis
  proof cases
    case 1
    then show ?thesis using D by simp
  next
    case 2
    have i: "distinct (map cardId (cards ?d'))" using D 2 by simp
    show ?thesis
    proof (cases "b2 = b \<and> col2 = col")
      case True
      then show ?thesis using i 2 append_dense append_distinctPositions by simp
    next
      case False
      then have "\<not> inPartition b2 col2 c" using 2(4) by (auto simp: inPartition_def)
      then have "cardsIn (cards ?d') b2 col2 = cardsIn (cards d) b2 col2"
        unfolding 2(2) by (rule append_other_partition)
      then show ?thesis using i cardsIn_eq_dense cardsIn_eq_distinctPositions by blast
    qed
  qed
qed

lemma move_result:
  assumes D: "distinct (map cardId (cards d))"
  shows "fst (snd (moveCard isUuid now b a i Y k d)) = d \<and> fst (moveCard isUuid now b a i Y k d) \<noteq> Inr () \<or>
         (\<exists>c. findCard (cards d) i b = Some c \<and> fst (moveCard isUuid now b a i Y k d) = Inr () \<and>
              distinct (map cardId (cards (fst (snd (moveCard isUuid now b a i Y k d))))) \<and>
              dense (cards (fst (snd (moveCard isUuid now b a i Y k d)))) b (column c) \<and>
              dense (cards (fst (snd (moveCard isUuid now b a i Y k d)))) b Y \<and>
              (\<forall>b2 col2. b2 \<noteq> b \<or> (col2 \<noteq> column c \<and> col2 \<noteq> Y) \<longrightarrow>
                 cardsIn (cards (fst (snd (moveCard isUuid now b a i Y k d)))) b2 col2 = cardsIn (cards d) b2 col2))"
proof (cases "isUuid i \<and> 0 \<le> k")
  case False
  then have "\<not> isUuid i \<or> k < 0" by auto
  then show ?thesis by (simp add: moveCard_invalid)
next
  case ok: True
  show ?thesis
  proof (cases "findCard (cards d) i b")
    case None
    then show ?thesis using ok by (simp add: moveCard_missing)
  next
    case (Some c)
    show ?thesis
    proof (cases "column c = Y")
      case True
      let ?L = "insertAt k i (remove1 i (idsIn (cards d) b (column c)))"
      let ?cs = "renumbered (setPosition now) ?L (cards d)"
      note sc = same_column_cards [OF D Some]
      have m: "moveCard isUuid now b a i Y k d = (Inr (), d\<lparr>cards := ?cs\<rparr>, [])"
        using moveCard_same [where isUuid = isUuid and i = i and k = k and d = d and b = b and c = c
            and cs = ?cs and actor = a and now = now] ok Some sc(1) True by simp
      have keep: "\<And>p j x. cardId (setPosition now p j x) = cardId x" by (simp add: setPosition_def)
      have "distinct (map cardId ?cs)" using D map_cardId_renumbered [of "setPosition now", OF keep] by simp
      moreover have "dense ?cs b (column c)" using sc(2) sc(3) by (rule dense_from)
      moreover have "cardsIn ?cs b2 col2 = cardsIn (cards d) b2 col2"
        if "b2 \<noteq> b \<or> (col2 \<noteq> column c \<and> col2 \<noteq> Y)" for b2 col2
        using that sc(4) by blast
      ultimately show ?thesis using Some True by (simp add: m)
    next
      case False
      let ?F = "remove1 i (idsIn (cards d) b (column c))"
      let ?T = "insertAt k i (remove1 i (idsIn (cards d) b Y))"
      let ?now2 = "\<lambda>j. now (length ?F + j)"
      let ?cs = "renumbered (setPositionColumn ?now2 i Y) ?T (renumbered (setPosition now) ?F (cards d))"
      note cc = cross_column_cards [OF D Some False]
      have m: "moveCard isUuid now b a i Y k d =
                 (Inr (), d\<lparr>cards := ?cs\<rparr>,
                  [\<lparr>nCardId = i, nActorId = a, nEvent = Moved,
                    nFromColumn = Some (column c), nToColumn = Some Y\<rparr>])"
        using ok Some False cc(1) [where k = k and now = now and ?now2.0 = ?now2]
        by (intro moveCard_cross) simp_all
      have "distinct (map cardId ?cs)" using D cc(10) [where k = k and now = now and ?now2.0 = ?now2] by simp
      moreover have "dense ?cs b (column c)" using cc(2) [where k = k and now = now and ?now2.0 = ?now2]
          cc(3) [where k = k and now = now and ?now2.0 = ?now2] by (rule dense_from)
      moreover have "dense ?cs b Y" using cc(4) [where k = k and now = now and ?now2.0 = ?now2]
          cc(5) [where k = k and now = now and ?now2.0 = ?now2] by (rule dense_from)
      moreover have "cardsIn ?cs b2 col2 = cardsIn (cards d) b2 col2"
        if "b2 \<noteq> b \<or> (col2 \<noteq> column c \<and> col2 \<noteq> Y)" for b2 col2
        using that cc(8) [where k = k and now = now and ?now2.0 = ?now2] by blast
      ultimately show ?thesis using Some by (simp add: m)
    qed
  qed
qed


lemma deleteCard_cards:
  "snd (deleteCard isUuid b i d) = d \<and> fst (deleteCard isUuid b i d) \<noteq> Inr () \<or>
   fst (deleteCard isUuid b i d) = Inr () \<and>
   cards (snd (deleteCard isUuid b i d)) = filter (\<lambda>x. cardId x \<noteq> i) (cards d)"
  by (simp add: deleteCard_def split: option.splits)

lemma filter_swap: "filter P (filter Q cs) = filter Q (filter P cs)"
  by (induction cs) auto

lemma cardsIn_filter: "cardsIn (filter Q cs) b col = filter Q (cardsIn cs b col)"
proof -
  have "filter (inPartition b col) (filter Q cs) = filter Q (filter (inPartition b col) cs)"
    by (rule filter_swap)
  then show ?thesis unfolding cardsIn_alt by (simp add: filter_sort)
qed

lemma filter_distinctPositions:
  assumes "distinctPositions cs b col"
  shows "distinctPositions (filter Q cs) b col"
proof -
  have "filter (inPartition b col) (filter Q cs) = filter Q (filter (inPartition b col) cs)"
    by (rule filter_swap)
  moreover have "distinct (map position (filter Q (filter (inPartition b col) cs)))"
    using assms unfolding distinctPositions_def by (rule distinct_map_filter)
  ultimately show ?thesis unfolding distinctPositions_def by simp
qed

lemma move_partitions:
  assumes D: "distinct (map cardId (cards d))"
  shows "distinct (map cardId (cards (fst (snd (moveCard isUuid now b a i Y k d))))) \<and>
         (dense (cards d) b2 col2 \<longrightarrow> dense (cards (fst (snd (moveCard isUuid now b a i Y k d)))) b2 col2) \<and>
         (distinctPositions (cards d) b2 col2 \<longrightarrow>
            distinctPositions (cards (fst (snd (moveCard isUuid now b a i Y k d)))) b2 col2)"
proof (rule disjE [OF move_result [OF D, of isUuid now b a i Y k]])
  assume "fst (snd (moveCard isUuid now b a i Y k d)) = d \<and> fst (moveCard isUuid now b a i Y k d) \<noteq> Inr ()"
  then have "fst (snd (moveCard isUuid now b a i Y k d)) = d" by (rule conjunct1)
  then show ?thesis using D by simp
next
  let ?d' = "fst (snd (moveCard isUuid now b a i Y k d))"
  assume "\<exists>c. findCard (cards d) i b = Some c \<and> fst (moveCard isUuid now b a i Y k d) = Inr () \<and>
              distinct (map cardId (cards ?d')) \<and> dense (cards ?d') b (column c) \<and> dense (cards ?d') b Y \<and>
              (\<forall>b2 col2. b2 \<noteq> b \<or> (col2 \<noteq> column c \<and> col2 \<noteq> Y) \<longrightarrow>
                 cardsIn (cards ?d') b2 col2 = cardsIn (cards d) b2 col2)"
  then obtain c where c: "findCard (cards d) i b = Some c \<and> fst (moveCard isUuid now b a i Y k d) = Inr () \<and>
              distinct (map cardId (cards ?d')) \<and> dense (cards ?d') b (column c) \<and> dense (cards ?d') b Y \<and>
              (\<forall>b2 col2. b2 \<noteq> b \<or> (col2 \<noteq> column c \<and> col2 \<noteq> Y) \<longrightarrow>
                 cardsIn (cards ?d') b2 col2 = cardsIn (cards d) b2 col2)" ..
  note r = c [THEN conjunct2, THEN conjunct2]
  note di = r [THEN conjunct1]
  note dx = r [THEN conjunct2, THEN conjunct1]
  note dy = r [THEN conjunct2, THEN conjunct2, THEN conjunct1]
  note oth = r [THEN conjunct2, THEN conjunct2, THEN conjunct2]
  show ?thesis
  proof (cases "b2 \<noteq> b \<or> (col2 \<noteq> column c \<and> col2 \<noteq> Y)")
    case True
    then have e: "cardsIn (cards ?d') b2 col2 = cardsIn (cards d) b2 col2" using oth by (simp only:)
    show ?thesis
      using di cardsIn_eq_dense [OF e] cardsIn_eq_distinctPositions [OF e] by (simp only:) simp
  next
    case False
    then have "b2 = b" and "col2 = column c \<or> col2 = Y" by auto
    then have "dense (cards ?d') b2 col2" using dx dy by auto
    then show ?thesis using di dense_imp_distinctPositions by (simp only:) simp
  qed
qed

lemma delete_partitions:
  assumes D: "distinct (map cardId (cards d))"
  shows "distinct (map cardId (cards (snd (deleteCard isUuid b i d)))) \<and>
         (distinctPositions (cards d) b2 col2 \<longrightarrow>
            distinctPositions (cards (snd (deleteCard isUuid b i d))) b2 col2)"
proof -
  consider "snd (deleteCard isUuid b i d) = d"
    | "cards (snd (deleteCard isUuid b i d)) = filter (\<lambda>x. cardId x \<noteq> i) (cards d)"
    using deleteCard_cards [of isUuid b i d] by blast
  then show ?thesis
  proof cases
    case 1
    then show ?thesis using D by simp
  next
    case 2
    then show ?thesis using D filter_distinctPositions by (simp add: distinct_map_filter)
  qed
qed

lemma step_dense:
  assumes D: "distinct (map cardId (cards d))" and A: "\<forall>b col. dense (cards d) b col"
    and nd: "\<not> isDelete r"
  shows "distinct (map cardId (cards (cardStep isUuid r d))) \<and>
         (\<forall>b col. dense (cards (cardStep isUuid r d)) b col)"
proof (cases r)
  case (Create now b a n ds col)
  have "distinct (map cardId (cards (snd (createCard now b a n ds col d))))"
    using create_partitions [OF D] by blast
  moreover have "dense (cards (snd (createCard now b a n ds col d))) b2 col2" for b2 col2
    using create_partitions [OF D, where ?b2.0 = b2 and ?col2.0 = col2] A by blast
  ultimately show ?thesis unfolding Create by simp
next
  case (Move now b a i Y k)
  have "distinct (map cardId (cards (fst (snd (moveCard isUuid now b a i Y k d)))))"
    using move_partitions [OF D] by blast
  moreover have "dense (cards (fst (snd (moveCard isUuid now b a i Y k d)))) b2 col2" for b2 col2
    using move_partitions [OF D, where ?b2.0 = b2 and ?col2.0 = col2] A by blast
  ultimately show ?thesis unfolding Move by simp
next
  case (Delete b i)
  then show ?thesis using nd by simp
qed

lemma step_distinct:
  assumes D: "distinct (map cardId (cards d))" and A: "\<forall>b col. distinctPositions (cards d) b col"
  shows "distinct (map cardId (cards (cardStep isUuid r d))) \<and>
         (\<forall>b col. distinctPositions (cards (cardStep isUuid r d)) b col)"
proof (cases r)
  case (Create now b a n ds col)
  have "distinct (map cardId (cards (snd (createCard now b a n ds col d))))"
    using create_partitions [OF D] by blast
  moreover have "distinctPositions (cards (snd (createCard now b a n ds col d))) b2 col2" for b2 col2
    using create_partitions [OF D, where ?b2.0 = b2 and ?col2.0 = col2] A by blast
  ultimately show ?thesis unfolding Create by simp
next
  case (Move now b a i Y k)
  have "distinct (map cardId (cards (fst (snd (moveCard isUuid now b a i Y k d)))))"
    using move_partitions [OF D] by blast
  moreover have "distinctPositions (cards (fst (snd (moveCard isUuid now b a i Y k d)))) b2 col2" for b2 col2
    using move_partitions [OF D, where ?b2.0 = b2 and ?col2.0 = col2] A by blast
  ultimately show ?thesis unfolding Move by simp
next
  case (Delete b i)
  have "distinct (map cardId (cards (snd (deleteCard isUuid b i d))))"
    using delete_partitions [OF D] by blast
  moreover have "distinctPositions (cards (snd (deleteCard isUuid b i d))) b2 col2" for b2 col2
    using delete_partitions [OF D, where ?b2.0 = b2 and ?col2.0 = col2] A by blast
  ultimately show ?thesis unfolding Delete by simp
qed

lemma run_dense:
  assumes "distinct (map cardId (cards d))" and "\<forall>b col. dense (cards d) b col"
    and "list_all (\<lambda>r. \<not> isDelete r) rs"
  shows "distinct (map cardId (cards (cardRun isUuid rs d))) \<and>
         (\<forall>b col. dense (cards (cardRun isUuid rs d)) b col)"
  using assms
proof (induction rs arbitrary: d)
  case Nil
  then show ?case by simp
next
  case (Cons r rs)
  have nd: "\<not> isDelete r" and rest: "list_all (\<lambda>r. \<not> isDelete r) rs" using Cons.prems(3) by simp_all
  have s: "distinct (map cardId (cards (cardStep isUuid r d)))"
    "\<forall>b col. dense (cards (cardStep isUuid r d)) b col"
    using step_dense [OF Cons.prems(1) Cons.prems(2) nd] by simp_all
  show ?case using Cons.IH [OF s rest] by simp
qed

lemma run_distinct:
  assumes "distinct (map cardId (cards d))" and "\<forall>b col. distinctPositions (cards d) b col"
  shows "distinct (map cardId (cards (cardRun isUuid rs d))) \<and>
         (\<forall>b col. distinctPositions (cards (cardRun isUuid rs d)) b col)"
  using assms
proof (induction rs arbitrary: d)
  case Nil
  then show ?case by simp
next
  case (Cons r rs)
  have s: "distinct (map cardId (cards (cardStep isUuid r d)))"
    "\<forall>b col. distinctPositions (cards (cardStep isUuid r d)) b col"
    using step_distinct [OF Cons.prems(1) Cons.prems(2)] by simp_all
  show ?case using Cons.IH [OF s] by simp
qed

text \<open>
  Claim C1, as amended. From a state in which every partition is dense (and ids are
  distinct, the primary key): after any run of create and move requests the positions of
  every partition (B, C) are exactly 0 .. n - 1, each once; after any run of create,
  move and delete requests no position occurs twice in a partition; a delete removes
  the card's row and writes no other, so the cards left in a partition keep their
  positions and their order; and a move that succeeds leaves its source and its
  destination partition dense, whatever gaps they had.
\<close>

theorem positions_after_card_operations:
  assumes D: "distinct (map cardId (cards d))" and A: "denseAll (cards d)"
  shows "(list_all (\<lambda>r. \<not> isDelete r) rs \<longrightarrow> (\<forall>b col. dense (cards (cardRun isUuid rs d)) b col)) \<and>
         (\<forall>b col. distinctPositions (cards (cardRun isUuid rs d)) b col) \<and>
         (\<forall>b i b2 col2. fst (deleteCard isUuid b i (cardRun isUuid rs d)) = Inr () \<longrightarrow>
            cardsIn (cards (snd (deleteCard isUuid b i (cardRun isUuid rs d)))) b2 col2
              = filter (\<lambda>x. cardId x \<noteq> i) (cardsIn (cards (cardRun isUuid rs d)) b2 col2)) \<and>
         (\<forall>b a i Y k. fst (moveCard isUuid now b a i Y k (cardRun isUuid rs d)) = Inr () \<longrightarrow>
            (\<exists>c. findCard (cards (cardRun isUuid rs d)) i b = Some c \<and>
                 dense (cards (fst (snd (moveCard isUuid now b a i Y k (cardRun isUuid rs d))))) b (column c) \<and>
                 dense (cards (fst (snd (moveCard isUuid now b a i Y k (cardRun isUuid rs d))))) b Y))"
proof -
  let ?e = "cardRun isUuid rs d"
  have da: "\<forall>b col. dense (cards d) b col" using A by (simp add: denseAll_iff)
  then have na: "\<forall>b col. distinctPositions (cards d) b col"
    using dense_imp_distinctPositions by blast
  have 1: "list_all (\<lambda>r. \<not> isDelete r) rs \<longrightarrow> (\<forall>b col. dense (cards ?e) b col)"
    using run_dense [OF D da] by blast
  have De: "distinct (map cardId (cards ?e))" and 2: "\<forall>b col. distinctPositions (cards ?e) b col"
    using run_distinct [OF D na] by blast+
  have 3: "cardsIn (cards (snd (deleteCard isUuid b i ?e))) b2 col2
              = filter (\<lambda>x. cardId x \<noteq> i) (cardsIn (cards ?e) b2 col2)"
    if "fst (deleteCard isUuid b i ?e) = Inr ()" for b i b2 col2
  proof -
    have "cards (snd (deleteCard isUuid b i ?e)) = filter (\<lambda>x. cardId x \<noteq> i) (cards ?e)"
      using that deleteCard_cards [of isUuid b i ?e] by blast
    then show ?thesis by (simp only: cardsIn_filter)
  qed
  have 4: "\<exists>c. findCard (cards ?e) i b = Some c \<and>
                 dense (cards (fst (snd (moveCard isUuid now b a i Y k ?e)))) b (column c) \<and>
                 dense (cards (fst (snd (moveCard isUuid now b a i Y k ?e)))) b Y"
    if "fst (moveCard isUuid now b a i Y k ?e) = Inr ()" for b a i Y k
  proof (rule disjE [OF move_result [OF De, of isUuid now b a i Y k]])
    assume "fst (snd (moveCard isUuid now b a i Y k ?e)) = ?e \<and> fst (moveCard isUuid now b a i Y k ?e) \<noteq> Inr ()"
    then show ?thesis using that by simp
  next
    let ?d' = "fst (snd (moveCard isUuid now b a i Y k ?e))"
    assume "\<exists>c. findCard (cards ?e) i b = Some c \<and> fst (moveCard isUuid now b a i Y k ?e) = Inr () \<and>
              distinct (map cardId (cards ?d')) \<and> dense (cards ?d') b (column c) \<and> dense (cards ?d') b Y \<and>
              (\<forall>b2 col2. b2 \<noteq> b \<or> (col2 \<noteq> column c \<and> col2 \<noteq> Y) \<longrightarrow>
                 cardsIn (cards ?d') b2 col2 = cardsIn (cards ?e) b2 col2)"
    then obtain c where c: "findCard (cards ?e) i b = Some c \<and> fst (moveCard isUuid now b a i Y k ?e) = Inr () \<and>
              distinct (map cardId (cards ?d')) \<and> dense (cards ?d') b (column c) \<and> dense (cards ?d') b Y \<and>
              (\<forall>b2 col2. b2 \<noteq> b \<or> (col2 \<noteq> column c \<and> col2 \<noteq> Y) \<longrightarrow>
                 cardsIn (cards ?d') b2 col2 = cardsIn (cards ?e) b2 col2)" ..
    have "findCard (cards ?e) i b = Some c \<and> dense (cards ?d') b (column c) \<and> dense (cards ?d') b Y"
      using c by simp
    then show ?thesis ..
  qed
  show ?thesis
  proof (intro conjI allI impI)
    show "\<And>b col. list_all (\<lambda>r. \<not> isDelete r) rs \<Longrightarrow> dense (cards ?e) b col" using 1 by blast
    show "\<And>b col. distinctPositions (cards ?e) b col" using 2 by blast
    show "\<And>b i b2 col2. fst (deleteCard isUuid b i ?e) = Inr () \<Longrightarrow>
            cardsIn (cards (snd (deleteCard isUuid b i ?e))) b2 col2
              = filter (\<lambda>x. cardId x \<noteq> i) (cardsIn (cards ?e) b2 col2)" by (rule 3)
    show "\<And>b a i Y k. fst (moveCard isUuid now b a i Y k ?e) = Inr () \<Longrightarrow>
            \<exists>c. findCard (cards ?e) i b = Some c \<and>
                 dense (cards (fst (snd (moveCard isUuid now b a i Y k ?e)))) b (column c) \<and>
                 dense (cards (fst (snd (moveCard isUuid now b a i Y k ?e)))) b Y" by (rule 4)
  qed
qed


theorem positions_after_card_operations_witness:
  "distinct (map cardId (cards boardDemo)) \<and> denseAll (cards boardDemo) \<and>
   dense (cards (cardRun (\<lambda>_. True)
            [Create 1000 ''b1'' ''u1'' ''c7'' ''new card'' TODO, Move (\<lambda>_. 2000) ''b1'' ''u1'' ''c7'' BACKLOG 1] boardDemo))
     ''b1'' BACKLOG \<and>
   distinctPositions (cards (cardRun (\<lambda>_. True)
            [Create 1000 ''b1'' ''u1'' ''c7'' ''new card'' TODO, Move (\<lambda>_. 2000) ''b1'' ''u1'' ''c7'' BACKLOG 1] boardDemo))
     ''b1'' TODO"
proof -
  have D: "distinct (map cardId (cards boardDemo))" by (simp add: boardDemo_def mkCard_def)
  have A: "denseAll (cards boardDemo)"
    by (simp add: denseAll_def dense_def cardsIn_def boardDemo_def mkCard_def upt_rec)
  have n: "list_all (\<lambda>r. \<not> isDelete r)
             [Create 1000 ''b1'' ''u1'' ''c7'' ''new card'' TODO, Move (\<lambda>_. 2000) ''b1'' ''u1'' ''c7'' BACKLOG 1]"
    by simp
  show ?thesis
    using positions_after_card_operations [OF D A,
        of "[Create 1000 ''b1'' ''u1'' ''c7'' ''new card'' TODO, Move (\<lambda>_. 2000) ''b1'' ''u1'' ''c7'' BACKLOG 1]" "\<lambda>_. True"]
      D A n
    by blast
qed

text \<open>
  As stated, with delete among the operations, the claim fails: deleting the first of
  three backlog cards leaves positions 1 and 2.
\<close>

theorem positions_after_delete_counterexample:
  "distinct (map cardId (cards boardDemo)) \<and> denseAll (cards boardDemo) \<and>
   fst (deleteCard (\<lambda>_. True) ''b1'' ''c1'' boardDemo) = Inr () \<and>
   map position (cardsIn (cards (cardRun (\<lambda>_. True) [Delete ''b1'' ''c1''] boardDemo)) ''b1'' BACKLOG)
     = [1, 2] \<and>
   \<not> dense (cards (cardRun (\<lambda>_. True) [Delete ''b1'' ''c1''] boardDemo)) ''b1'' BACKLOG"
proof -
  have D: "distinct (map cardId (cards boardDemo))" by (simp add: boardDemo_def mkCard_def)
  have A: "denseAll (cards boardDemo)"
    by (simp add: denseAll_def dense_def cardsIn_def boardDemo_def mkCard_def upt_rec)
  have r: "deleteCard (\<lambda>_. True) ''b1'' ''c1'' boardDemo =
             (Inr (), boardDemo\<lparr>cards :=
                [mkCard ''c2'' ''b1'' BACKLOG 1, mkCard ''c3'' ''b1'' BACKLOG 2, mkCard ''c4'' ''b1'' TODO 0,
                 mkCard ''c5'' ''b1'' TODO 1, mkCard ''c6'' ''b2'' BACKLOG 0],
                participants := [(''c2'', ''u1''), (''c2'', ''u2'')]\<rparr>)"
    by (simp add: deleteCard_def boardDemo_def mkCard_def findCard_def)
  have 1: "fst (deleteCard (\<lambda>_. True) ''b1'' ''c1'' boardDemo) = Inr ()" by (simp add: r)
  have 2: "map position (cardsIn (cards (cardRun (\<lambda>_. True) [Delete ''b1'' ''c1''] boardDemo)) ''b1'' BACKLOG)
     = [1, 2]"
    by (simp add: r mkCard_def cardsIn_def)
  have 3: "\<not> dense (cards (cardRun (\<lambda>_. True) [Delete ''b1'' ''c1''] boardDemo)) ''b1'' BACKLOG"
    by (simp add: r dense_def mkCard_def cardsIn_def upt_rec)
  show ?thesis using D A 1 2 3 by blast
qed

lemma findCard_other_board:
  assumes D: "distinct (map cardId cs)" and c: "c \<in> set cs" "cardId c = i" "boardId c \<noteq> B"
  shows "findCard cs i B = None"
proof -
  have "\<not> (cardId x = i \<and> boardId x = B)" if x: "x \<in> set cs" for x
  proof
    assume a: "cardId x = i \<and> boardId x = B"
    then have "x = c" using same_id [OF D x c(1)] c(2) by simp
    then show False using a c(3) by simp
  qed
  then show ?thesis unfolding findCard_def find_None_iff by blast
qed

section \<open>Board isolation\<close>

text \<open>
  Claim C5. A session has passed the gate with active board \<open>B\<close>, and the card of id
  \<open>i\<close> lies on another board. Then \<^verbatim>\<open>GET /cards/:id\<close> and a well-formed
  \<^verbatim>\<open>POST /cards/:id/move\<close> (index \<ge> 0) for that id both answer 404 "Card not found", not
  403; the move writes nothing and notifies nobody.
\<close>

theorem board_isolation:
  assumes D: "distinct (map cardId (cards d))"
    and g: "boardGate (loadSession d sid) d = Inr (u, B)"
    and c: "c \<in> set (cards d)" "cardId c = i" "boardId c \<noteq> B"
    and v: "isUuid i" and k: "0 \<le> k"
  shows "getCardRoute isUuid sid i d = Inl (HttpError 404 ''Card not found'') \<and>
         moveCardRoute isUuid now sid i Y k d = (Inl (HttpError 404 ''Card not found''), d, []) \<and>
         getCardRoute isUuid sid i d \<noteq> Inl (HttpError 403 ''Forbidden'') \<and>
         fst (moveCardRoute isUuid now sid i Y k d) \<noteq> Inl (HttpError 403 ''Forbidden'')"
proof -
  have n: "findCard (cards d) i B = None" using D c by (rule findCard_other_board)
  have 1: "getCardRoute isUuid sid i d = Inl (HttpError 404 ''Card not found'')"
    using g v n by (simp add: getCardRoute_def getCard_def)
  have 2: "moveCardRoute isUuid now sid i Y k d = (Inl (HttpError 404 ''Card not found''), d, [])"
    using g v k n by (simp add: moveCardRoute_def moveCard_missing)
  show ?thesis using 1 2 by simp
qed

theorem board_isolation_witness:
  "boardGate (loadSession boardDemo ''s1'') boardDemo
     = Inr (mkUser ''u1'' ''admin@local'' ''Root'' ADMIN, ''b1'') \<and>
   mkCard ''c6'' ''b2'' BACKLOG 0 \<in> set (cards boardDemo) \<and>
   getCardRoute (\<lambda>_. True) ''s1'' ''c6'' boardDemo = Inl (HttpError 404 ''Card not found'') \<and>
   moveCardRoute (\<lambda>_. True) (\<lambda>_. 1000) ''s1'' ''c6'' TODO 0 boardDemo
     = (Inl (HttpError 404 ''Card not found''), boardDemo, [])"
proof -
  have D: "distinct (map cardId (cards boardDemo))" by (simp add: boardDemo_def mkCard_def)
  have g: "boardGate (loadSession boardDemo ''s1'') boardDemo
     = Inr (mkUser ''u1'' ''admin@local'' ''Root'' ADMIN, ''b1'')"
    by (simp add: boardGate_def loadSession_def requireLogin_def getAuthUser_def truthy_def
        requireTwoFactor_def requireBoardContext_def boardDemo_def mkUser_def)
  have c: "mkCard ''c6'' ''b2'' BACKLOG 0 \<in> set (cards boardDemo)"
    "cardId (mkCard ''c6'' ''b2'' BACKLOG 0) = ''c6''" "boardId (mkCard ''c6'' ''b2'' BACKLOG 0) \<noteq> ''b1''"
    by (simp_all add: boardDemo_def mkCard_def)
  have v: "(\<lambda>_. True) ''c6''" by simp
  have k: "(0::int) \<le> 0" by simp
  show ?thesis
    using board_isolation [OF D g c v k, where Y = TODO and now = "\<lambda>_. 1000"] g c(1) by simp
qed

section \<open>Precedence of the session checks\<close>

lemma getAuthUser_Some:
  "getAuthUser s d = Some u \<Longrightarrow> requireLogin s d = Inr u"
  by (simp add: requireLogin_def)

lemma find_setPassword:
  "find (\<lambda>x. userId x = i) (setPassword j h m us) =
     map_option (\<lambda>u. if userId u = j then u\<lparr>passwordHash := h, mustChangePassword := m\<rparr> else u)
       (find (\<lambda>x. userId x = i) us)"
  by (induction us) (simp_all add: setPassword_def)

text \<open>
  Claim C9, as amended. For a session with a logged-in user, the gate in front of the
  board and card routes refuses with "2FA setup required" when TOTP is not enabled, else
  with "Two-factor required" when the session has not passed the second factor, and else
  goes on to the board check; it never reads \<^verbatim>\<open>mustChangePassword\<close>. The precedence
  must-change-password, then 2FA setup, then 2FA verification, then the board is the
  order in which the client picks its screen from \<^verbatim>\<open>GET /auth/me\<close>. A password change
  of at least 8 characters on that session succeeds and clears the flag.
\<close>

theorem gate_precedence:
  assumes a: "getAuthUser s d = Some u"
  shows "(\<not> totpEnabled u \<longrightarrow> boardGate s d = Inl (HttpError 403 ''2FA setup required'')) \<and>
         (totpEnabled u \<longrightarrow> twoFactorPassed s \<noteq> Some True \<longrightarrow>
            boardGate s d = Inl (HttpError 401 ''Two-factor required'')) \<and>
         (totpEnabled u \<longrightarrow> twoFactorPassed s = Some True \<longrightarrow>
            boardGate s d = (case requireBoardContext s u d of Inl e \<Rightarrow> Inl e | Inr b \<Rightarrow> Inr (u, b))) \<and>
         (mustChangePassword u \<longrightarrow> appView (Some (getMe s d)) None = ChangePasswordView) \<and>
         (\<not> mustChangePassword u \<longrightarrow> \<not> totpEnabled u \<longrightarrow>
            appView (Some (getMe s d)) None = TwoFaSetupView) \<and>
         (\<not> mustChangePassword u \<longrightarrow> totpEnabled u \<longrightarrow> twoFactorPassed s \<noteq> Some True \<longrightarrow>
            appView (Some (getMe s d)) None = TwoFaVerifyView) \<and>
         (\<not> mustChangePassword u \<longrightarrow> totpEnabled u \<longrightarrow> twoFactorPassed s = Some True \<longrightarrow>
            appView (Some (getMe s d)) None = BoardView) \<and>
         (s = loadSession d sid \<longrightarrow> 8 \<le> length pw \<longrightarrow>
            fst (changePassword K sid pw d) = Inr () \<and>
            getAuthUser (loadSession (snd (changePassword K sid pw d)) sid) (snd (changePassword K sid pw d))
              = Some (u\<lparr>passwordHash := hashPassword K pw, mustChangePassword := False\<rparr>))"
proof -
  have l: "requireLogin s d = Inr u" using a by (rule getAuthUser_Some)
  obtain uid where uid: "truthy (sessUser s) = Some uid" "find (\<lambda>x. userId x = uid) (users d) = Some u"
    using a by (auto simp: getAuthUser_def split: option.splits)
  have g: "boardGate s d =
             (if \<not> totpEnabled u then Inl (HttpError 403 ''2FA setup required'')
              else if twoFactorPassed s \<noteq> Some True then Inl (HttpError 401 ''Two-factor required'')
              else (case requireBoardContext s u d of Inl e \<Rightarrow> Inl e | Inr b \<Rightarrow> Inr (u, b)))"
    by (simp add: boardGate_def l requireTwoFactor_def)
  have m: "getMe s d = \<lparr>meUserOf = Some \<lparr>meMustChangePassword = mustChangePassword u,
                                         meTotpEnabled = totpEnabled u\<rparr>,
                       meTwoFactorPassed = (twoFactorPassed s = Some True)\<rparr>"
    by (simp add: getMe_def uid)
  have v: "appView (Some (getMe s d)) None =
             (if mustChangePassword u then ChangePasswordView
              else if \<not> totpEnabled u then TwoFaSetupView
              else if twoFactorPassed s \<noteq> Some True then TwoFaVerifyView
              else BoardView)"
    by (simp add: m appView_def truthy_def)
  have c: "fst (changePassword K sid pw d) = Inr () \<and>
           getAuthUser (loadSession (snd (changePassword K sid pw d)) sid) (snd (changePassword K sid pw d))
              = Some (u\<lparr>passwordHash := hashPassword K pw, mustChangePassword := False\<rparr>)"
    if s: "s = loadSession d sid" and p: "8 \<le> length pw"
  proof -
    define d' where "d' = d\<lparr>users := setPassword (userId u) (hashPassword K pw) False (users d)\<rparr>"
    have id: "userId u = uid" using uid(2) by (auto simp: find_Some_iff)
    have cp: "changePassword K sid pw d = (Inr (), d')"
      using l p unfolding s d'_def by (simp add: changePassword_def)
    have ls: "loadSession d' sid = s"
      unfolding s d'_def by (simp add: loadSession_def)
    have us: "users d' = setPassword (userId u) (hashPassword K pw) False (users d)"
      unfolding d'_def by simp
    have "getAuthUser s d' = Some (u\<lparr>passwordHash := hashPassword K pw, mustChangePassword := False\<rparr>)"
      by (simp add: getAuthUser_def uid us find_setPassword id)
    then show ?thesis by (simp add: cp ls)
  qed
  show ?thesis using g v c by simp
qed


lemmas platform_eval =
  demoPlatform_def asciiTrim_def asciiSpace_def asciiLower_def asciiLowerChar_def ilike_def
  findFirstInsensitive_def

lemmas auth_eval =
  loginRoute_def LoginSchema_def resolveLogin_def platform_eval
  secondFactor_def getTrustedDeviceCookie_def COOKIE_NAME_def truthy_def verifyTrustedDeviceToken_def
  issueTrustedDevice_def initialBoard_def saveSession_def loadSession_def emptySession_def
  demoCrypto_def annLogin_def mkUser_def mkCard_def

lemma authDemo_tables:
  "users authDemo =
        [(mkUser ''u1'' ''admin@local'' ''Root'' ADMIN)
           \<lparr>isSystem := True, passwordHash := ''h:root-password'', totpSecret := Some ''111111''\<rparr>,
         (mkUser ''u2'' ''ann@x.io'' ''Ann'' MEMBER)
           \<lparr>passwordHash := ''h:ann-password'', totpSecret := Some ''222222''\<rparr>,
         mkUser ''u3'' ''carl@x.io'' ''Admin'' MEMBER,
         mkUser ''u4'' ''dora@x.io'' ''admin'' MEMBER,
         mkUser ''u5'' ''kim@x.io'' ''Kim'' MEMBER,
         mkUser ''u6'' ''kim2@x.io'' ''KIM'' MEMBER,
         (mkUser ''u7'' ''eve@x.io'' ''Eve'' MEMBER)
           \<lparr>passwordHash := ''h:eve-password'', totpEnabled := False, totpSecret := None\<rparr>]"
  "boards authDemo = [''b1'']"
  "memberships authDemo = [(''b1'', ''u1''), (''b1'', ''u2''), (''b1'', ''u7'')]"
  "cards authDemo = [mkCard ''c1'' ''b1'' BACKLOG 0]"
  "participants authDemo = []"
  "trustedDevices authDemo =
        [\<lparr>tdUserId = ''u2'', tokenHash = ''#ann-device-token'', expiresAt = 5000, lastUsedAt = 0\<rparr>]"
  "passwordResetTokens authDemo =
        [\<lparr>prtId = ''t1'', prtUserId = ''u2'', prtTokenHash = ''#reset-token-0123456789'',
          prtExpiresAt = 5000, usedAt = None\<rparr>]"
  "sessions authDemo =
        [(''s1'', \<lparr>sessUser = Some ''u1'', twoFactorPassed = Some True, sessBoardId = Some ''b1''\<rparr>),
         (''s2'', \<lparr>sessUser = Some ''u2'', twoFactorPassed = Some True, sessBoardId = Some ''b1''\<rparr>)]"
  by (simp_all add: authDemo_def)

lemma tempPasswordDemo_eq:
  "tempPasswordDemo =
     authDemo\<lparr>users := setPassword ''u2'' ''h:temp-password'' True (users authDemo),
              sessions := sessions authDemo @
                [(''s9'', \<lparr>sessUser = Some ''u2'', twoFactorPassed = Some True,
                          sessBoardId = Some ''b1''\<rparr>)]\<rparr>"
  by (simp add: tempPasswordDemo_def adminSetPassword_def setPassword_def authDemo_tables auth_eval)

lemma tempPasswordDemo_tables:
  "users tempPasswordDemo = setPassword ''u2'' ''h:temp-password'' True (users authDemo)"
  "sessions tempPasswordDemo = sessions authDemo @
                [(''s9'', \<lparr>sessUser = Some ''u2'', twoFactorPassed = Some True,
                          sessBoardId = Some ''b1''\<rparr>)]"
  "memberships tempPasswordDemo = memberships authDemo"
  "cards tempPasswordDemo = cards authDemo"
  by (simp_all add: tempPasswordDemo_eq)

lemma eveResolve:
  "resolveLogin demoPlatform ''eve@x.io'' d
     = findFirstInsensitive demoPlatform EmailColumn ''eve@x.io'' (users d)"
  by (simp add: resolveLogin_def demoPlatform_def asciiTrim_def asciiSpace_def asciiLower_def
      asciiLowerChar_def)

lemma eveFound:
  "findFirstInsensitive demoPlatform EmailColumn ''eve@x.io'' (users authDemo)
     = Inr (Some ((mkUser ''u7'' ''eve@x.io'' ''Eve'' MEMBER)
           \<lparr>passwordHash := ''h:eve-password'', totpEnabled := False, totpSecret := None\<rparr>))"
  "findFirstInsensitive demoPlatform EmailColumn ''eve@x.io''
       (setPassword ''u7'' ''h:temp-password'' True (users authDemo))
     = Inr (Some ((mkUser ''u7'' ''eve@x.io'' ''Eve'' MEMBER)
           \<lparr>passwordHash := ''h:temp-password'', mustChangePassword := True, totpEnabled := False,
            totpSecret := None\<rparr>))"
  by (simp_all add: platform_eval authDemo_tables setPassword_def mkUser_def)

lemma setupDemo_tables:
  "users setupDemo = users authDemo"
  "memberships setupDemo = memberships authDemo"
  "sessions setupDemo = sessions authDemo @
     [(''s3'', \<lparr>sessUser = Some ''u7'', twoFactorPassed = Some False, sessBoardId = Some ''b1''\<rparr>),
      (''s4'', \<lparr>sessUser = Some ''u7'', twoFactorPassed = Some False, sessBoardId = Some ''b1''\<rparr>)]"
proof -
  let ?eve = "(mkUser ''u7'' ''eve@x.io'' ''Eve'' MEMBER)
           \<lparr>passwordHash := ''h:eve-password'', totpEnabled := False, totpSecret := None\<rparr>"
  let ?s = "\<lparr>sessUser = Some ''u7'', twoFactorPassed = Some False, sessBoardId = Some ''b1''\<rparr>"
  have l: "loginRoute demoPlatform demoCrypto 1000 ''new-token'' sid None eveLogin d
            = (Inr \<lparr>respUserId = ''u7'', respTwoFactorPassed = False, respBoardId = Some ''b1'',
                    respTrustCookie = None\<rparr>, saveSession sid ?s d)"
    if "users d = users authDemo" for sid d
    by (simp add: loginRoute_def LoginSchema_def eveLogin_def eveResolve that eveFound
        secondFactor_def initialBoard_def truthy_def demoCrypto_def mkUser_def)
  have 1: "loginRoute demoPlatform demoCrypto 1000 ''new-token'' ''s3'' None eveLogin authDemo
            = (Inr \<lparr>respUserId = ''u7'', respTwoFactorPassed = False, respBoardId = Some ''b1'',
                    respTrustCookie = None\<rparr>, saveSession ''s3'' ?s authDemo)"
    by (rule l) simp
  have u: "users (saveSession ''s3'' ?s authDemo) = users authDemo" by (simp add: saveSession_def)
  have e: "setupDemo = saveSession ''s4'' ?s (saveSession ''s3'' ?s authDemo)"
    unfolding setupDemo_def 1 using l [OF u, of "''s4''"] by simp
  show "users setupDemo = users authDemo" "memberships setupDemo = memberships authDemo"
    "sessions setupDemo = sessions authDemo @ [(''s3'', ?s), (''s4'', ?s)]"
    unfolding e by (simp_all add: saveSession_def authDemo_tables)
qed

lemma verifyDemo_tables:
  "users verifyDemo
     = map (\<lambda>x. if userId x = ''u7''
                 then x\<lparr>totpEnabled := True, totpSecret := Some ''333333'', totpTempSecret := None\<rparr>
                 else x) (users authDemo)"
  "memberships verifyDemo = memberships authDemo"
  "sessions verifyDemo = sessions authDemo @
     [(''s3'', \<lparr>sessUser = Some ''u7'', twoFactorPassed = Some True, sessBoardId = Some ''b1''\<rparr>),
      (''s4'', \<lparr>sessUser = Some ''u7'', twoFactorPassed = Some False, sessBoardId = Some ''b1''\<rparr>)]"
proof -
  have e: "verifyDemo =
     setupDemo\<lparr>users := map (\<lambda>x. if userId x = ''u7''
                 then x\<lparr>totpEnabled := True, totpSecret := Some ''333333'', totpTempSecret := None\<rparr>
                 else x) (users authDemo),
               sessions := sessions authDemo @
     [(''s3'', \<lparr>sessUser = Some ''u7'', twoFactorPassed = Some True, sessBoardId = Some ''b1''\<rparr>),
      (''s4'', \<lparr>sessUser = Some ''u7'', twoFactorPassed = Some False, sessBoardId = Some ''b1''\<rparr>)]\<rparr>"
    by (simp add: verifyDemo_def twoFaSetup_def twoFaEnable_def requireLogin_def getAuthUser_def
        loadSession_def saveSession_def truthy_def setupDemo_tables authDemo_tables demoCrypto_def
        mkUser_def)
  show "users verifyDemo
     = map (\<lambda>x. if userId x = ''u7''
                 then x\<lparr>totpEnabled := True, totpSecret := Some ''333333'', totpTempSecret := None\<rparr>
                 else x) (users authDemo)"
    "memberships verifyDemo = memberships authDemo"
    "sessions verifyDemo = sessions authDemo @
     [(''s3'', \<lparr>sessUser = Some ''u7'', twoFactorPassed = Some True, sessBoardId = Some ''b1''\<rparr>),
      (''s4'', \<lparr>sessUser = Some ''u7'', twoFactorPassed = Some False, sessBoardId = Some ''b1''\<rparr>)]"
    unfolding e by (simp_all add: setupDemo_tables)
qed

lemma tempEveDemo_tables:
  "users tempEveDemo = setPassword ''u7'' ''h:temp-password'' True (users authDemo)"
  "memberships tempEveDemo = memberships authDemo"
  "sessions tempEveDemo = sessions authDemo @
     [(''s5'', \<lparr>sessUser = Some ''u7'', twoFactorPassed = Some False, sessBoardId = Some ''b1''\<rparr>)]"
proof -
  let ?s = "\<lparr>sessUser = Some ''u7'', twoFactorPassed = Some False, sessBoardId = Some ''b1''\<rparr>"
  let ?d = "authDemo\<lparr>users := setPassword ''u7'' ''h:temp-password'' True (users authDemo)\<rparr>"
  have a: "snd (adminSetPassword (\<lambda>_. True) demoCrypto ''u7'' ''temp-password'' authDemo) = ?d"
    by (simp add: adminSetPassword_def demoCrypto_def authDemo_tables mkUser_def)
  have e: "tempEveDemo = saveSession ''s5'' ?s ?d"
    unfolding tempEveDemo_def a
    by (simp add: loginRoute_def LoginSchema_def eveLogin_def eveResolve eveFound
        secondFactor_def initialBoard_def truthy_def demoCrypto_def mkUser_def)
  show "users tempEveDemo = setPassword ''u7'' ''h:temp-password'' True (users authDemo)"
    "memberships tempEveDemo = memberships authDemo"
    "sessions tempEveDemo = sessions authDemo @ [(''s5'', ?s)]"
    unfolding e by (simp_all add: saveSession_def authDemo_tables)
qed

theorem gate_precedence_witness:
  "boardGate (loadSession setupDemo ''s3'') setupDemo = Inl (HttpError 403 ''2FA setup required'') \<and>
   appView (Some (getMe (loadSession setupDemo ''s3'') setupDemo)) None = TwoFaSetupView \<and>
   boardGate (loadSession verifyDemo ''s4'') verifyDemo = Inl (HttpError 401 ''Two-factor required'') \<and>
   appView (Some (getMe (loadSession verifyDemo ''s4'') verifyDemo)) None = TwoFaVerifyView \<and>
   boardGate (loadSession verifyDemo ''s3'') verifyDemo
     = Inr ((mkUser ''u7'' ''eve@x.io'' ''Eve'' MEMBER)
              \<lparr>passwordHash := ''h:eve-password'', totpSecret := Some ''333333''\<rparr>, ''b1'') \<and>
   appView (Some (getMe (loadSession verifyDemo ''s3'') verifyDemo)) None = BoardView \<and>
   mustChangePassword ((mkUser ''u7'' ''eve@x.io'' ''Eve'' MEMBER)
              \<lparr>passwordHash := ''h:temp-password'', mustChangePassword := True, totpEnabled := False,
               totpSecret := None\<rparr>) \<and>
   boardGate (loadSession tempEveDemo ''s5'') tempEveDemo = Inl (HttpError 403 ''2FA setup required'') \<and>
   appView (Some (getMe (loadSession tempEveDemo ''s5'') tempEveDemo)) None = ChangePasswordView \<and>
   fst (changePassword demoCrypto ''s5'' ''brand-new-pw'' tempEveDemo) = Inr () \<and>
   getAuthUser (loadSession (snd (changePassword demoCrypto ''s5'' ''brand-new-pw'' tempEveDemo)) ''s5'')
       (snd (changePassword demoCrypto ''s5'' ''brand-new-pw'' tempEveDemo))
     = Some ((mkUser ''u7'' ''eve@x.io'' ''Eve'' MEMBER)
              \<lparr>passwordHash := ''h:brand-new-pw'', totpEnabled := False, totpSecret := None\<rparr>)"
proof -
  let ?eve0 = "(mkUser ''u7'' ''eve@x.io'' ''Eve'' MEMBER)
              \<lparr>passwordHash := ''h:eve-password'', totpEnabled := False, totpSecret := None\<rparr>"
  let ?eve1 = "(mkUser ''u7'' ''eve@x.io'' ''Eve'' MEMBER)
              \<lparr>passwordHash := ''h:eve-password'', totpSecret := Some ''333333''\<rparr>"
  let ?eve2 = "(mkUser ''u7'' ''eve@x.io'' ''Eve'' MEMBER)
              \<lparr>passwordHash := ''h:temp-password'', mustChangePassword := True, totpEnabled := False,
               totpSecret := None\<rparr>"
  have s3: "loadSession setupDemo ''s3''
      = \<lparr>sessUser = Some ''u7'', twoFactorPassed = Some False, sessBoardId = Some ''b1''\<rparr>"
    by (simp add: loadSession_def setupDemo_tables authDemo_tables)
  have a3: "getAuthUser (loadSession setupDemo ''s3'') setupDemo = Some ?eve0"
    by (simp add: s3 getAuthUser_def truthy_def setupDemo_tables authDemo_tables mkUser_def)
  have v4: "loadSession verifyDemo ''s4''
      = \<lparr>sessUser = Some ''u7'', twoFactorPassed = Some False, sessBoardId = Some ''b1''\<rparr>"
    by (simp add: loadSession_def verifyDemo_tables authDemo_tables)
  have b4: "getAuthUser (loadSession verifyDemo ''s4'') verifyDemo = Some ?eve1"
    by (simp add: v4 getAuthUser_def truthy_def verifyDemo_tables authDemo_tables mkUser_def)
  have v3: "loadSession verifyDemo ''s3''
      = \<lparr>sessUser = Some ''u7'', twoFactorPassed = Some True, sessBoardId = Some ''b1''\<rparr>"
    by (simp add: loadSession_def verifyDemo_tables authDemo_tables)
  have b3: "getAuthUser (loadSession verifyDemo ''s3'') verifyDemo = Some ?eve1"
    by (simp add: v3 getAuthUser_def truthy_def verifyDemo_tables authDemo_tables mkUser_def)
  have c3: "requireBoardContext (loadSession verifyDemo ''s3'') ?eve1 verifyDemo = Inr ''b1''"
    by (simp add: v3 requireBoardContext_def truthy_def verifyDemo_tables authDemo_tables mkUser_def)
  have t5: "loadSession tempEveDemo ''s5''
      = \<lparr>sessUser = Some ''u7'', twoFactorPassed = Some False, sessBoardId = Some ''b1''\<rparr>"
    by (simp add: loadSession_def tempEveDemo_tables authDemo_tables)
  have d5: "getAuthUser (loadSession tempEveDemo ''s5'') tempEveDemo = Some ?eve2"
    by (simp add: t5 getAuthUser_def truthy_def tempEveDemo_tables setPassword_def authDemo_tables mkUser_def)
  have f0: "\<not> totpEnabled ?eve0" "\<not> mustChangePassword ?eve0"
    and f1: "totpEnabled ?eve1" "\<not> mustChangePassword ?eve1"
    and f2: "\<not> totpEnabled ?eve2" "mustChangePassword ?eve2"
    by (simp_all add: mkUser_def)
  have p4: "twoFactorPassed (loadSession verifyDemo ''s4'') \<noteq> Some True"
    and p3: "twoFactorPassed (loadSession verifyDemo ''s3'') = Some True"
    by (simp_all add: v4 v3)
  note G0 = gate_precedence [OF a3]
  note G4 = gate_precedence [OF b4]
  note G3 = gate_precedence [OF b3]
  note G5 = gate_precedence [OF d5, where sid = "''s5''" and pw = "''brand-new-pw''" and K = demoCrypto]
  have 1: "boardGate (loadSession setupDemo ''s3'') setupDemo = Inl (HttpError 403 ''2FA setup required'')"
    using G0 f0 by blast
  have 2: "appView (Some (getMe (loadSession setupDemo ''s3'') setupDemo)) None = TwoFaSetupView"
    using G0 f0 by blast
  have 3: "boardGate (loadSession verifyDemo ''s4'') verifyDemo = Inl (HttpError 401 ''Two-factor required'')"
    using G4 f1 p4 by blast
  have 4: "appView (Some (getMe (loadSession verifyDemo ''s4'') verifyDemo)) None = TwoFaVerifyView"
    using G4 f1 p4 by blast
  have "boardGate (loadSession verifyDemo ''s3'') verifyDemo
     = (case requireBoardContext (loadSession verifyDemo ''s3'') ?eve1 verifyDemo of
          Inl e \<Rightarrow> Inl e | Inr b \<Rightarrow> Inr (?eve1, b))"
    using G3 f1 p3 by blast
  then have 5: "boardGate (loadSession verifyDemo ''s3'') verifyDemo = Inr (?eve1, ''b1'')"
    by (simp add: c3)
  have 6: "appView (Some (getMe (loadSession verifyDemo ''s3'') verifyDemo)) None = BoardView"
    using G3 f1 p3 by blast
  have 7: "boardGate (loadSession tempEveDemo ''s5'') tempEveDemo = Inl (HttpError 403 ''2FA setup required'')"
    using G5 f2 by blast
  have 8: "appView (Some (getMe (loadSession tempEveDemo ''s5'') tempEveDemo)) None = ChangePasswordView"
    using G5 f2 by blast
  have len: "8 \<le> length ''brand-new-pw''" by simp
  have "fst (changePassword demoCrypto ''s5'' ''brand-new-pw'' tempEveDemo) = Inr () \<and>
        getAuthUser (loadSession (snd (changePassword demoCrypto ''s5'' ''brand-new-pw'' tempEveDemo)) ''s5'')
            (snd (changePassword demoCrypto ''s5'' ''brand-new-pw'' tempEveDemo))
          = Some (?eve2\<lparr>passwordHash := hashPassword demoCrypto ''brand-new-pw'',
                         mustChangePassword := False\<rparr>)"
    using G5 len by blast
  moreover have "?eve2\<lparr>passwordHash := hashPassword demoCrypto ''brand-new-pw'', mustChangePassword := False\<rparr>
     = (mkUser ''u7'' ''eve@x.io'' ''Eve'' MEMBER)
              \<lparr>passwordHash := ''h:brand-new-pw'', totpEnabled := False, totpSecret := None\<rparr>"
    by (simp add: demoCrypto_def mkUser_def)
  ultimately have 9: "fst (changePassword demoCrypto ''s5'' ''brand-new-pw'' tempEveDemo) = Inr ()"
    and 10: "getAuthUser (loadSession (snd (changePassword demoCrypto ''s5'' ''brand-new-pw'' tempEveDemo)) ''s5'')
       (snd (changePassword demoCrypto ''s5'' ''brand-new-pw'' tempEveDemo))
     = Some ((mkUser ''u7'' ''eve@x.io'' ''Eve'' MEMBER)
              \<lparr>passwordHash := ''h:brand-new-pw'', totpEnabled := False, totpSecret := None\<rparr>)"
    by simp_all
  show ?thesis using 1 2 3 4 5 6 f2(2) 7 8 9 10 by blast
qed

text \<open>
  As stated the claim fails on the server: Ann, whose flag \<^verbatim>\<open>mustChangePassword\<close> is set,
  passes the gate and reads a card without having changed her password.
\<close>

theorem gate_precedence_counterexample:
  "getAuthUser (loadSession tempPasswordDemo ''s9'') tempPasswordDemo
     = Some ((mkUser ''u2'' ''ann@x.io'' ''Ann'' MEMBER)
               \<lparr>passwordHash := ''h:temp-password'', mustChangePassword := True,
                totpSecret := Some ''222222''\<rparr>) \<and>
   mustChangePassword ((mkUser ''u2'' ''ann@x.io'' ''Ann'' MEMBER)
               \<lparr>passwordHash := ''h:temp-password'', mustChangePassword := True,
                totpSecret := Some ''222222''\<rparr>) \<and>
   boardGate (loadSession tempPasswordDemo ''s9'') tempPasswordDemo
     = Inr ((mkUser ''u2'' ''ann@x.io'' ''Ann'' MEMBER)
               \<lparr>passwordHash := ''h:temp-password'', mustChangePassword := True,
                totpSecret := Some ''222222''\<rparr>, ''b1'') \<and>
   getCardRoute (\<lambda>_. True) ''s9'' ''c1'' tempPasswordDemo = Inr (mkCard ''c1'' ''b1'' BACKLOG 0)"
proof -
  let ?ann = "(mkUser ''u2'' ''ann@x.io'' ''Ann'' MEMBER)
               \<lparr>passwordHash := ''h:temp-password'', mustChangePassword := True,
                totpSecret := Some ''222222''\<rparr>"
  have s: "loadSession tempPasswordDemo ''s9''
             = \<lparr>sessUser = Some ''u2'', twoFactorPassed = Some True, sessBoardId = Some ''b1''\<rparr>"
    by (simp add: tempPasswordDemo_tables loadSession_def authDemo_tables)
  have a: "getAuthUser (loadSession tempPasswordDemo ''s9'') tempPasswordDemo = Some ?ann"
    by (simp add: s getAuthUser_def truthy_def tempPasswordDemo_tables setPassword_def authDemo_tables mkUser_def)
  have g: "boardGate (loadSession tempPasswordDemo ''s9'') tempPasswordDemo = Inr (?ann, ''b1'')"
    using a
    by (simp add: boardGate_def requireLogin_def requireTwoFactor_def s requireBoardContext_def truthy_def
        tempPasswordDemo_tables authDemo_tables mkUser_def)
  have c: "getCardRoute (\<lambda>_. True) ''s9'' ''c1'' tempPasswordDemo = Inr (mkCard ''c1'' ''b1'' BACKLOG 0)"
    by (simp add: getCardRoute_def g getCard_def findCard_def tempPasswordDemo_tables authDemo_tables mkCard_def)
  show ?thesis using a g c by (simp add: mkUser_def)
qed

section \<open>Password reset and what it invalidates\<close>

lemma tokenReset_eval:
  "passwordReset demoCrypto 1000 ''reset-token-0123456789'' ''new-password'' authDemo =
     (Inr (),
      authDemo\<lparr>users := setPassword ''u2'' ''h:new-password'' False (users authDemo),
               passwordResetTokens :=
                 [\<lparr>prtId = ''t1'', prtUserId = ''u2'', prtTokenHash = ''#reset-token-0123456789'',
                   prtExpiresAt = 5000, usedAt = Some 1000\<rparr>],
               sessions := [(''s1'', \<lparr>sessUser = Some ''u1'', twoFactorPassed = Some True,
                                     sessBoardId = Some ''b1''\<rparr>)]\<rparr>)"
  by (simp add: passwordReset_def deleteSessionsOf_def demoCrypto_def authDemo_tables mkUser_def)

lemma tokenResetDemo_tables:
  "users tokenResetDemo = setPassword ''u2'' ''h:new-password'' False (users authDemo)"
  "sessions tokenResetDemo = [(''s1'', \<lparr>sessUser = Some ''u1'', twoFactorPassed = Some True,
                                     sessBoardId = Some ''b1''\<rparr>)]"
  "trustedDevices tokenResetDemo = trustedDevices authDemo"
  "memberships tokenResetDemo = memberships authDemo"
  by (simp_all add: tokenResetDemo_def tokenReset_eval)

lemma totpReset_eval:
  "passwordResetByTotp demoPlatform demoCrypto ''ann@x.io'' ''222222'' ''new-password'' authDemo =
     (Inr (),
      authDemo\<lparr>users := setPassword ''u2'' ''h:new-password'' False (users authDemo),
               sessions := [(''s1'', \<lparr>sessUser = Some ''u1'', twoFactorPassed = Some True,
                                     sessBoardId = Some ''b1''\<rparr>)],
               trustedDevices := []\<rparr>)"
  by (simp add: passwordResetByTotp_def resolveForReset_def platform_eval truthy_def
      deleteSessionsOf_def demoCrypto_def authDemo_tables mkUser_def)

lemma totpResetDemo_tables:
  "sessions totpResetDemo = [(''s1'', \<lparr>sessUser = Some ''u1'', twoFactorPassed = Some True,
                                     sessBoardId = Some ''b1''\<rparr>)]"
  "trustedDevices totpResetDemo = []"
  by (simp_all add: totpResetDemo_def totpReset_eval)

text \<open>
  Claim C3, on the code. Before any reset, Ann's session passes \<^verbatim>\<open>requireLogin\<close> and her
  trusted-device token verifies. After the reset by emailed token her session is gone
  (401), but the trusted-device token still verifies, and a login with the new password,
  that cookie and no TOTP code succeeds with the second factor passed. After the reset by
  TOTP code both the session and the trusted device are gone.
\<close>

theorem token_reset_keeps_trusted_device:
  "fst (passwordReset demoCrypto 1000 ''reset-token-0123456789'' ''new-password'' authDemo) = Inr () \<and>
   requireLogin (loadSession authDemo ''s2'') authDemo
     = Inr ((mkUser ''u2'' ''ann@x.io'' ''Ann'' MEMBER)
              \<lparr>passwordHash := ''h:ann-password'', totpSecret := Some ''222222''\<rparr>) \<and>
   fst (verifyTrustedDeviceToken demoCrypto ''u2'' ''ann-device-token'' 1000 authDemo) \<and>
   requireLogin (loadSession tokenResetDemo ''s2'') tokenResetDemo = Inl (HttpError 401 ''Unauthorized'') \<and>
   fst (verifyTrustedDeviceToken demoCrypto ''u2'' ''ann-device-token'' 2000 tokenResetDemo) \<and>
   fst (loginRoute demoPlatform demoCrypto 2000 ''new-token'' ''s9'' (Some ''ioterra.2fa_trust=ann-device-token'')
          (annLogin ''new-password'' None) tokenResetDemo)
     = Inr \<lparr>respUserId = ''u2'', respTwoFactorPassed = True, respBoardId = Some ''b1'',
            respTrustCookie = None\<rparr> \<and>
   fst (passwordResetByTotp demoPlatform demoCrypto ''ann@x.io'' ''222222'' ''new-password'' authDemo) = Inr () \<and>
   requireLogin (loadSession totpResetDemo ''s2'') totpResetDemo = Inl (HttpError 401 ''Unauthorized'') \<and>
   \<not> fst (verifyTrustedDeviceToken demoCrypto ''u2'' ''ann-device-token'' 2000 totpResetDemo)"
proof -
  have 1: "fst (passwordReset demoCrypto 1000 ''reset-token-0123456789'' ''new-password'' authDemo) = Inr ()"
    by (simp add: tokenReset_eval)
  have 2: "requireLogin (loadSession authDemo ''s2'') authDemo
     = Inr ((mkUser ''u2'' ''ann@x.io'' ''Ann'' MEMBER)
              \<lparr>passwordHash := ''h:ann-password'', totpSecret := Some ''222222''\<rparr>)"
    by (simp add: requireLogin_def getAuthUser_def loadSession_def truthy_def authDemo_tables mkUser_def)
  have 3: "fst (verifyTrustedDeviceToken demoCrypto ''u2'' ''ann-device-token'' 1000 authDemo)"
    by (simp add: verifyTrustedDeviceToken_def demoCrypto_def authDemo_tables)
  have 4: "requireLogin (loadSession tokenResetDemo ''s2'') tokenResetDemo = Inl (HttpError 401 ''Unauthorized'')"
    by (simp add: requireLogin_def getAuthUser_def loadSession_def emptySession_def truthy_def
        tokenResetDemo_tables)
  have 5: "fst (verifyTrustedDeviceToken demoCrypto ''u2'' ''ann-device-token'' 2000 tokenResetDemo)"
    by (simp add: verifyTrustedDeviceToken_def demoCrypto_def tokenResetDemo_tables authDemo_tables)
  have 6: "fst (loginRoute demoPlatform demoCrypto 2000 ''new-token'' ''s9'' (Some ''ioterra.2fa_trust=ann-device-token'')
          (annLogin ''new-password'' None) tokenResetDemo)
     = Inr \<lparr>respUserId = ''u2'', respTwoFactorPassed = True, respBoardId = Some ''b1'',
            respTrustCookie = None\<rparr>"
    by (simp add: auth_eval tokenResetDemo_tables authDemo_tables setPassword_def)
  have 7: "fst (passwordResetByTotp demoPlatform demoCrypto ''ann@x.io'' ''222222'' ''new-password'' authDemo) = Inr ()"
    by (simp add: totpReset_eval)
  have 8: "requireLogin (loadSession totpResetDemo ''s2'') totpResetDemo = Inl (HttpError 401 ''Unauthorized'')"
    by (simp add: requireLogin_def getAuthUser_def loadSession_def emptySession_def truthy_def
        totpResetDemo_tables)
  have 9: "\<not> fst (verifyTrustedDeviceToken demoCrypto ''u2'' ''ann-device-token'' 2000 totpResetDemo)"
    by (simp add: verifyTrustedDeviceToken_def demoCrypto_def totpResetDemo_tables)
  show ?thesis using 1 2 3 4 5 6 7 8 9 by blast
qed

section \<open>Two-factor gating of the login\<close>

lemma loadSession_saveSession: "loadSession (saveSession sid s d) sid = s"
proof -
  have a: "map_of (map (\<lambda>r. if fst r = sid then (sid, s) else r) xs) sid = Some s"
    if "sid \<in> set (map fst xs)" for xs :: "(string \<times> sessionData) list"
    using that by (induction xs) auto
  have b: "map_of (xs @ [(sid, s)]) sid = Some s"
    if "sid \<notin> set (map fst xs)" for xs :: "(string \<times> sessionData) list"
    using that by (induction xs) auto
  show ?thesis using a b by (simp add: loadSession_def saveSession_def)
qed

lemma login_past_password:
  assumes "LoginSchema body" and "resolveLogin R (login body) d = Inr (Some u)"
    and "verifyPassword K (password body) (passwordHash u)"
  shows "loginRoute R K now newToken sid header body d =
           (case secondFactor R K now newToken header body u d of
              Inl e \<Rightarrow> (Inl e, d)
            | Inr (d', trust) \<Rightarrow>
                (Inr \<lparr>respUserId = userId u,
                      respTwoFactorPassed = totpEnabled u,
                      respBoardId = initialBoard u d',
                      respTrustCookie = trust\<rparr>,
                 saveSession sid \<lparr>sessUser = Some (userId u), twoFactorPassed = Some (totpEnabled u),
                                  sessBoardId = initialBoard u d'\<rparr> d'))"
  using assms by (simp add: loginRoute_def Let_def split: sum.splits prod.splits)

lemma secondFactor_enabled:
  assumes "totpEnabled u" and "totpSecret u = Some secret" and "secret \<noteq> []"
  shows "secondFactor R K now newToken header body u d =
           (case truthy (totp body) of
                  Some code \<Rightarrow>
                    if \<not> verifyTotp K code secret then Inl (HttpError 401 ''Invalid 2FA code'')
                    else if rememberDevice body
                    then (case issueTrustedDevice K (userId u) newToken now d of
                            None \<Rightarrow> Inl InternalError
                          | Some d' \<Rightarrow> Inr (d', Some newToken))
                    else Inr (d, None)
                | None \<Rightarrow>
                    (case getTrustedDeviceCookie R header of
                       Inl e \<Rightarrow> Inl e
                     | Inr cookie \<Rightarrow>
                         (case truthy cookie of
                            None \<Rightarrow> Inl (HttpError 401 ''Two-factor required'')
                          | Some token \<Rightarrow>
                              (case verifyTrustedDeviceToken K (userId u) token now d of
                                 (ok, d') \<Rightarrow>
                                   if \<not> ok then Inl (HttpError 401 ''Two-factor required'')
                                   else Inr (d', None)))))"
  using assms by (simp add: secondFactor_def)

lemma verifyTrustedDeviceToken_iff:
  "fst (verifyTrustedDeviceToken K uid token now d) \<longleftrightarrow>
     (\<exists>t \<in> set (trustedDevices d). tdUserId t = uid \<and> tokenHash t = sha256Hex K token \<and> now < expiresAt t)"
proof -
  let ?P = "\<lambda>t. tdUserId t = uid \<and> tokenHash t = sha256Hex K token \<and> now < expiresAt t"
  have "fst (verifyTrustedDeviceToken K uid token now d) \<longleftrightarrow> find ?P (trustedDevices d) \<noteq> None"
    by (simp add: verifyTrustedDeviceToken_def Let_def split: option.splits)
  then show ?thesis unfolding find_None_iff by blast
qed

lemma verifyTrustedDeviceToken_False:
  "\<not> fst (verifyTrustedDeviceToken K uid token now d) \<Longrightarrow>
   verifyTrustedDeviceToken K uid token now d = (False, d)"
  by (simp add: verifyTrustedDeviceToken_def Let_def split: option.splits)

lemma cookieOf_error: "cookieOf R ps = Inl e \<Longrightarrow> e = InternalError"
  by (induction ps) (auto split: if_splits option.splits)

lemma getTrustedDeviceCookie_error: "getTrustedDeviceCookie R header = Inl e \<Longrightarrow> e = InternalError"
  by (auto simp: getTrustedDeviceCookie_def dest: cookieOf_error split: option.splits)

text \<open>
  The login past the password, for a user with TOTP enabled and a stored, non-empty
  secret. With no code in the body the handler reads the trusted-device cookie of the
  request: none, an empty one, or one that matches no unexpired device of this user
  gives 401 "Two-factor required" and writes nothing; a value whose decoding throws gives
  status 500 and writes nothing; one that matches an unexpired device of this user lets
  the login succeed, the session carrying the user with the second factor passed. With
  a code that does not verify, the login fails with 401 "Invalid 2FA code", whatever the
  cookie, writes nothing, and the session is as it was.
\<close>

lemma login_second_factor_cases:
  assumes v: "LoginSchema body"
    and r: "resolveLogin R (login body) d = Inr (Some u)"
    and p: "verifyPassword K (password body) (passwordHash u)"
    and t: "totpEnabled u" and sec: "totpSecret u = Some secret" "secret \<noteq> []"
  shows
   "(totp body = None \<longrightarrow>
       (\<forall>c. getTrustedDeviceCookie R header = Inr c \<longrightarrow>
          (truthy c = None \<or>
           (\<exists>tok. truthy c = Some tok \<and>
              \<not> (\<exists>t \<in> set (trustedDevices d).
                    tdUserId t = userId u \<and> tokenHash t = sha256Hex K tok \<and> now < expiresAt t))) \<longrightarrow>
          loginRoute R K now newToken sid header body d
            = (Inl (HttpError 401 ''Two-factor required''), d))) \<and>
    (totp body = None \<longrightarrow>
       (\<forall>e. getTrustedDeviceCookie R header = Inl e \<longrightarrow>
          e = InternalError \<and> status e = 500 \<and>
          loginRoute R K now newToken sid header body d = (Inl InternalError, d))) \<and>
    (totp body = None \<longrightarrow>
       (\<forall>tok. getTrustedDeviceCookie R header = Inr (Some tok) \<longrightarrow> tok \<noteq> [] \<longrightarrow>
           (\<exists>t \<in> set (trustedDevices d).
                 tdUserId t = userId u \<and> tokenHash t = sha256Hex K tok \<and> now < expiresAt t) \<longrightarrow>
       (\<exists>b. fst (loginRoute R K now newToken sid header body d)
              = Inr \<lparr>respUserId = userId u, respTwoFactorPassed = True, respBoardId = b,
                     respTrustCookie = None\<rparr> \<and>
            loadSession (snd (loginRoute R K now newToken sid header body d)) sid
              = \<lparr>sessUser = Some (userId u), twoFactorPassed = Some True, sessBoardId = b\<rparr>))) \<and>
    (\<forall>code. totp body = Some code \<longrightarrow> \<not> verifyTotp K code secret \<longrightarrow>
       loginRoute R K now newToken sid header body d = (Inl (HttpError 401 ''Invalid 2FA code''), d) \<and>
       loadSession (snd (loginRoute R K now newToken sid header body d)) sid = loadSession d sid)"
proof -
  note lp = login_past_password [OF v r p, of now newToken sid header]
  note sf = secondFactor_enabled [OF t sec, of R K now newToken header body d]
  have A: "loginRoute R K now newToken sid header body d = (Inl (HttpError 401 ''Two-factor required''), d)"
    if n: "totp body = None" and g: "getTrustedDeviceCookie R header = Inr c"
      and c: "truthy c = None \<or>
        (\<exists>tok. truthy c = Some tok \<and>
           \<not> (\<exists>t \<in> set (trustedDevices d).
                 tdUserId t = userId u \<and> tokenHash t = sha256Hex K tok \<and> now < expiresAt t))" for c
  proof -
    have "secondFactor R K now newToken header body u d = Inl (HttpError 401 ''Two-factor required'')"
    proof (cases "truthy c")
      case None
      then show ?thesis using n g by (simp add: sf truthy_def)
    next
      case (Some tok)
      then have "\<not> fst (verifyTrustedDeviceToken K (userId u) tok now d)"
        using c by (simp add: verifyTrustedDeviceToken_iff)
      then have "verifyTrustedDeviceToken K (userId u) tok now d = (False, d)"
        by (rule verifyTrustedDeviceToken_False)
      then show ?thesis using n g Some by (simp add: sf truthy_def)
    qed
    then show ?thesis by (simp add: lp)
  qed
  have E: "e = InternalError \<and> status e = 500 \<and>
           loginRoute R K now newToken sid header body d = (Inl InternalError, d)"
    if n: "totp body = None" and g: "getTrustedDeviceCookie R header = Inl e" for e
  proof -
    have e: "e = InternalError" using g by (rule getTrustedDeviceCookie_error)
    have "secondFactor R K now newToken header body u d = Inl InternalError"
      using n g e by (simp add: sf truthy_def)
    then show ?thesis using e by (simp add: lp)
  qed
  have B: "\<exists>b. fst (loginRoute R K now newToken sid header body d)
              = Inr \<lparr>respUserId = userId u, respTwoFactorPassed = True, respBoardId = b,
                     respTrustCookie = None\<rparr> \<and>
            loadSession (snd (loginRoute R K now newToken sid header body d)) sid
              = \<lparr>sessUser = Some (userId u), twoFactorPassed = Some True, sessBoardId = b\<rparr>"
    if n: "totp body = None" and g: "getTrustedDeviceCookie R header = Inr (Some tok)"
      and ne: "tok \<noteq> []"
      and c: "\<exists>t \<in> set (trustedDevices d).
                 tdUserId t = userId u \<and> tokenHash t = sha256Hex K tok \<and> now < expiresAt t" for tok
  proof -
    have tok: "truthy (Some tok) = Some tok" using ne by (simp add: truthy_def)
    have ok: "fst (verifyTrustedDeviceToken K (userId u) tok now d)"
      using c by (simp add: verifyTrustedDeviceToken_iff)
    obtain d' where d': "verifyTrustedDeviceToken K (userId u) tok now d = (True, d')"
      using ok by (cases "verifyTrustedDeviceToken K (userId u) tok now d") simp
    have "truthy (totp body) = None" using n by (simp add: truthy_def)
    then have "secondFactor R K now newToken header body u d = Inr (d', None)"
      using g tok d' by (simp add: sf)
    then have "loginRoute R K now newToken sid header body d =
           (Inr \<lparr>respUserId = userId u, respTwoFactorPassed = True,
                 respBoardId = initialBoard u d', respTrustCookie = None\<rparr>,
            saveSession sid \<lparr>sessUser = Some (userId u), twoFactorPassed = Some True,
                             sessBoardId = initialBoard u d'\<rparr> d')"
      using t by (simp add: lp)
    then show ?thesis by (simp add: loadSession_saveSession)
  qed
  have C: "loginRoute R K now newToken sid header body d = (Inl (HttpError 401 ''Invalid 2FA code''), d) \<and>
       loadSession (snd (loginRoute R K now newToken sid header body d)) sid = loadSession d sid"
    if c: "totp body = Some code" and w: "\<not> verifyTotp K code secret" for code
  proof -
    have "6 \<le> length code" using v c by (simp add: LoginSchema_def)
    then have "truthy (totp body) = Some code" using c by (auto simp: truthy_def)
    then have "secondFactor R K now newToken header body u d = Inl (HttpError 401 ''Invalid 2FA code'')"
      using w by (simp add: sf)
    then show ?thesis by (simp add: lp)
  qed
  show ?thesis using A E B C by blast
qed

lemma annResolve:
  "resolveLogin demoPlatform ''ann@x.io'' authDemo
     = Inr (Some ((mkUser ''u2'' ''ann@x.io'' ''Ann'' MEMBER)
               \<lparr>passwordHash := ''h:ann-password'', totpSecret := Some ''222222''\<rparr>))"
  by (simp add: resolveLogin_def platform_eval authDemo_tables mkUser_def)

lemma demoCookies:
  "getTrustedDeviceCookie demoPlatform None = Inr None"
  "getTrustedDeviceCookie demoPlatform (Some ''theme=dark; ioterra.2fa_trust=ann-device-token'')
     = Inr (Some ''ann-device-token'')"
  "getTrustedDeviceCookie demoPlatform (Some ''ioterra.2fa_trust=ann-device-token'')
     = Inr (Some ''ann-device-token'')"
  "getTrustedDeviceCookie demoPlatform (Some ''ioterra.2fa_trust=stolen-guess'') = Inr (Some ''stolen-guess'')"
  "getTrustedDeviceCookie demoPlatform (Some ''ioterra.2fa_trust=%'') = Inl InternalError"
  by (simp_all add: getTrustedDeviceCookie_def truthy_def COOKIE_NAME_def platform_eval)

text \<open>
  Claim C4, on the code. Ann has TOTP enabled; she gives her password and no code.
  Without a trusted-device cookie, and with one that matches no device, the login fails
  with 401 "Two-factor required" and writes nothing; with the cookie of her unexpired
  device it succeeds, and the session carries her with the second factor passed; with a
  wrong code it fails with 401 "Invalid 2FA code". With a trusted-device cookie whose
  value is the malformed escape "%", which is no valid cookie, the decoding throws and
  the login ends in status 500, not in "Two-factor required".
\<close>

theorem login_malformed_cookie:
  "percentDecode ''%'' = None \<and>
   getTrustedDeviceCookie demoPlatform (Some ''ioterra.2fa_trust=%'') = Inl InternalError \<and>
   loginRoute demoPlatform demoCrypto 1000 ''new-token'' ''s9'' (Some ''ioterra.2fa_trust=%'')
          (annLogin ''ann-password'' None) authDemo
     = (Inl InternalError, authDemo) \<and>
   status InternalError = 500 \<and>
   InternalError \<noteq> HttpError 401 ''Two-factor required'' \<and>
   loginRoute demoPlatform demoCrypto 1000 ''new-token'' ''s9'' None (annLogin ''ann-password'' None) authDemo
     = (Inl (HttpError 401 ''Two-factor required''), authDemo) \<and>
   loginRoute demoPlatform demoCrypto 1000 ''new-token'' ''s9'' (Some ''ioterra.2fa_trust=stolen-guess'')
          (annLogin ''ann-password'' None) authDemo
     = (Inl (HttpError 401 ''Two-factor required''), authDemo) \<and>
   fst (loginRoute demoPlatform demoCrypto 1000 ''new-token'' ''s9''
          (Some ''theme=dark; ioterra.2fa_trust=ann-device-token'')
          (annLogin ''ann-password'' None) authDemo)
     = Inr \<lparr>respUserId = ''u2'', respTwoFactorPassed = True, respBoardId = Some ''b1'',
            respTrustCookie = None\<rparr> \<and>
   loadSession (snd (loginRoute demoPlatform demoCrypto 1000 ''new-token'' ''s9''
          (Some ''theme=dark; ioterra.2fa_trust=ann-device-token'')
          (annLogin ''ann-password'' None) authDemo)) ''s9''
     = \<lparr>sessUser = Some ''u2'', twoFactorPassed = Some True, sessBoardId = Some ''b1''\<rparr> \<and>
   loginRoute demoPlatform demoCrypto 1000 ''new-token'' ''s9'' (Some ''ioterra.2fa_trust=ann-device-token'')
          (annLogin ''ann-password'' (Some ''999999'')) authDemo
     = (Inl (HttpError 401 ''Invalid 2FA code''), authDemo)"
proof -
  let ?ann = "(mkUser ''u2'' ''ann@x.io'' ''Ann'' MEMBER)
               \<lparr>passwordHash := ''h:ann-password'', totpSecret := Some ''222222''\<rparr>"
  let ?good = "Some ''theme=dark; ioterra.2fa_trust=ann-device-token''"
  have v: "LoginSchema (annLogin ''ann-password'' c)" if "c = None \<or> c = Some ''999999''" for c
    using that by (auto simp: LoginSchema_def annLogin_def)
  have r: "resolveLogin demoPlatform (login (annLogin ''ann-password'' c)) authDemo = Inr (Some ?ann)" for c
    by (simp add: annLogin_def annResolve)
  have p: "verifyPassword demoCrypto (password (annLogin ''ann-password'' c)) (passwordHash ?ann)" for c
    by (simp add: annLogin_def demoCrypto_def mkUser_def)
  have t: "totpEnabled ?ann" and sec: "totpSecret ?ann = Some ''222222''" "''222222'' \<noteq> []"
    by (simp_all add: mkUser_def)
  have id: "userId ?ann = ''u2''" by (simp add: mkUser_def)
  note none = login_second_factor_cases [OF v r p t sec, of None, where sid = "''s9''" and now = 1000
      and newToken = "''new-token''"]
  note bad = login_second_factor_cases [OF v r p t sec, of "Some ''999999''", where sid = "''s9''" and now = 1000
      and newToken = "''new-token''"]
  have n: "totp (annLogin ''ann-password'' None) = None"
    and c: "totp (annLogin ''ann-password'' (Some ''999999'')) = Some ''999999''"
    by (simp_all add: annLogin_def)
  have w: "\<not> verifyTotp demoCrypto ''999999'' ''222222''" by (simp add: demoCrypto_def)
  have dev: "\<exists>t\<in>set (trustedDevices authDemo).
               tdUserId t = userId ?ann \<and> tokenHash t = sha256Hex demoCrypto ''ann-device-token'' \<and>
               1000 < expiresAt t"
    by (simp add: authDemo_tables demoCrypto_def mkUser_def)
  have nodev: "\<not> (\<exists>t\<in>set (trustedDevices authDemo).
               tdUserId t = userId ?ann \<and> tokenHash t = sha256Hex demoCrypto ''stolen-guess'' \<and>
               1000 < expiresAt t)"
    by (simp add: authDemo_tables demoCrypto_def mkUser_def)
  have 1: "loginRoute demoPlatform demoCrypto 1000 ''new-token'' ''s9'' None (annLogin ''ann-password'' None) authDemo
     = (Inl (HttpError 401 ''Two-factor required''), authDemo)"
    using none [where header = None, THEN conjunct1] n demoCookies(1) by (simp add: truthy_def)
  have 2: "loginRoute demoPlatform demoCrypto 1000 ''new-token'' ''s9'' (Some ''ioterra.2fa_trust=stolen-guess'')
          (annLogin ''ann-password'' None) authDemo
     = (Inl (HttpError 401 ''Two-factor required''), authDemo)"
    using none [where header = "Some ''ioterra.2fa_trust=stolen-guess''", THEN conjunct1] n demoCookies(4) nodev
    by (simp add: truthy_def)
  have 3: "loginRoute demoPlatform demoCrypto 1000 ''new-token'' ''s9'' (Some ''ioterra.2fa_trust=%'')
          (annLogin ''ann-password'' None) authDemo
     = (Inl InternalError, authDemo)"
    using none [where header = "Some ''ioterra.2fa_trust=%''", THEN conjunct2, THEN conjunct1] n demoCookies(5)
    by simp
  have "\<exists>b. fst (loginRoute demoPlatform demoCrypto 1000 ''new-token'' ''s9'' ?good
          (annLogin ''ann-password'' None) authDemo)
     = Inr \<lparr>respUserId = userId ?ann, respTwoFactorPassed = True, respBoardId = b,
            respTrustCookie = None\<rparr> \<and>
     loadSession (snd (loginRoute demoPlatform demoCrypto 1000 ''new-token'' ''s9'' ?good
          (annLogin ''ann-password'' None) authDemo)) ''s9''
       = \<lparr>sessUser = Some (userId ?ann), twoFactorPassed = Some True, sessBoardId = b\<rparr>"
    using none [where header = ?good, THEN conjunct2, THEN conjunct2, THEN conjunct1] n demoCookies(2) dev
    by simp
  then obtain b where b: "fst (loginRoute demoPlatform demoCrypto 1000 ''new-token'' ''s9'' ?good
          (annLogin ''ann-password'' None) authDemo)
     = Inr \<lparr>respUserId = ''u2'', respTwoFactorPassed = True, respBoardId = b,
            respTrustCookie = None\<rparr>"
     and s: "loadSession (snd (loginRoute demoPlatform demoCrypto 1000 ''new-token'' ''s9'' ?good
          (annLogin ''ann-password'' None) authDemo)) ''s9''
       = \<lparr>sessUser = Some ''u2'', twoFactorPassed = Some True, sessBoardId = b\<rparr>"
    unfolding id by blast
  have "respBoardId (projr (fst (loginRoute demoPlatform demoCrypto 1000 ''new-token'' ''s9'' ?good
          (annLogin ''ann-password'' None) authDemo))) = Some ''b1''"
    by (simp add: loginRoute_def LoginSchema_def annLogin_def annResolve secondFactor_def demoCookies
        truthy_def verifyTrustedDeviceToken_def initialBoard_def demoCrypto_def authDemo_tables mkUser_def)
  then have "b = Some ''b1''" using b by simp
  then have 4: "fst (loginRoute demoPlatform demoCrypto 1000 ''new-token'' ''s9'' ?good
          (annLogin ''ann-password'' None) authDemo)
     = Inr \<lparr>respUserId = ''u2'', respTwoFactorPassed = True, respBoardId = Some ''b1'',
            respTrustCookie = None\<rparr>"
    and 5: "loadSession (snd (loginRoute demoPlatform demoCrypto 1000 ''new-token'' ''s9'' ?good
          (annLogin ''ann-password'' None) authDemo)) ''s9''
       = \<lparr>sessUser = Some ''u2'', twoFactorPassed = Some True, sessBoardId = Some ''b1''\<rparr>"
    using b s by simp_all
  have 6: "loginRoute demoPlatform demoCrypto 1000 ''new-token'' ''s9'' (Some ''ioterra.2fa_trust=ann-device-token'')
          (annLogin ''ann-password'' (Some ''999999'')) authDemo
     = (Inl (HttpError 401 ''Invalid 2FA code''), authDemo)"
    using bad [where header = "Some ''ioterra.2fa_trust=ann-device-token''"] c w by simp
  have 0: "percentDecode ''%'' = None" "status InternalError = 500"
    "InternalError \<noteq> HttpError 401 ''Two-factor required''"
    by simp_all
  show ?thesis using 0 demoCookies(5) 1 2 3 4 5 6 by blast
qed


section \<open>Errors of the identifier resolution\<close>









section \<open>Claim C6: the last admin and the system user\<close>

lemma adminCount_pos: "1 \<le> adminCount d \<longleftrightarrow> (\<exists>x \<in> set (users d). role x = ADMIN)"
proof -
  have "0 < length (filter (\<lambda>u. role u = ADMIN) (users d)) \<longleftrightarrow> (\<exists>x \<in> set (users d). role x = ADMIN)"
    by (simp add: filter_empty_conv)
  then show ?thesis by (simp add: adminCount_def Suc_le_eq)
qed

lemma other_admin:
  assumes D: "distinct (map userId us)" and two: "2 \<le> length (filter (\<lambda>u. role u = ADMIN) us)"
  shows "\<exists>x \<in> set us. role x = ADMIN \<and> userId x \<noteq> i"
proof -
  let ?F = "filter (\<lambda>u. role u = ADMIN) us"
  obtain a b rest where F: "?F = a # b # rest"
    using two by (cases ?F; cases "tl ?F") auto
  have "distinct (map userId ?F)" using D by (rule distinct_map_filter)
  then have ne: "userId a \<noteq> userId b" unfolding F by simp
  have "a \<in> set ?F" "b \<in> set ?F" unfolding F by simp_all
  then have m: "a \<in> set us" "role a = ADMIN" "b \<in> set us" "role b = ADMIN" by simp_all
  show ?thesis
  proof (cases "userId a = i")
    case True
    then have "userId b \<noteq> i" using ne by simp
    then show ?thesis using m by blast
  next
    case False
    then show ?thesis using m by blast
  qed
qed

lemma find_user_unique:
  assumes D: "distinct (map userId us)" and f: "find (\<lambda>x. userId x = i) us = Some u"
    and x: "x \<in> set us" "userId x = i"
  shows "x = u"
proof -
  have "u \<in> set us" "userId u = i" using f by (auto simp: find_Some_iff)
  then show ?thesis using D x by (auto simp: distinct_map dest: inj_onD)
qed

lemma adminUpdateUser_effect:
  "snd (adminUpdateUser R isUuid isEmail i body d) = d \<or>
   (\<exists>u b. find (\<lambda>x. userId x = i) (users d) = Some u \<and>
        \<not> (isSystem u \<and> newRole body \<noteq> None) \<and>
        \<not> (newRole body = Some MEMBER \<and> role u = ADMIN \<and> adminCount d \<le> 1) \<and>
        users (snd (adminUpdateUser R isUuid isEmail i body d)) =
          map (\<lambda>x. if userId x = i
                    then x\<lparr>defaultBoardId := b x,
                           email := (case newEmail body of Some e \<Rightarrow> e | None \<Rightarrow> email x),
                           role := (case newRole body of Some r \<Rightarrow> r | None \<Rightarrow> role x)\<rparr>
                    else x) (users d))"
proof (cases "\<not> isUuid i \<or> (case newEmail body of None \<Rightarrow> False | Some e \<Rightarrow> \<not> isEmail e)")
  case True
  then show ?thesis by (simp add: adminUpdateUser_def)
next
  case valid: False
  show ?thesis
  proof (cases "find (\<lambda>x. userId x = i) (users d)")
    case None
    then show ?thesis by (simp add: adminUpdateUser_def)
  next
    case (Some u)
    let ?need = "(case newRole body of Some r \<Rightarrow> r | None \<Rightarrow> role u) = MEMBER
                 \<and> filter (\<lambda>m. snd m = i) (memberships d) = []"
    let ?b = "case defaultBoardId u of Some x \<Rightarrow> x
              | None \<Rightarrow> (case boards d of x # _ \<Rightarrow> x | [] \<Rightarrow> DEFAULT_BOARD_ID)"
    let ?clash = "case newEmail body of None \<Rightarrow> False
                  | Some e \<Rightarrow> find (\<lambda>x. email x = e \<and> userId x \<noteq> i) (users d) \<noteq> None"
    let ?exists = "case truthy (newEmail body) of
                     None \<Rightarrow> Inr None
                   | Some e \<Rightarrow>
                       findFirstInsensitive R EmailColumn e (filter (\<lambda>x. userId x \<noteq> i) (users d))"
    show ?thesis
    proof (cases "(isSystem u \<and> newRole body \<noteq> None)
                  \<or> (newRole body = Some MEMBER \<and> role u = ADMIN \<and> adminCount d \<le> 1)")
      case True
      then show ?thesis using valid Some by (auto simp: adminUpdateUser_def)
    next
      case guards: False
      then have g1: "\<not> (isSystem u \<and> newRole body \<noteq> None)"
        and g2: "\<not> (newRole body = Some MEMBER \<and> role u = ADMIN \<and> adminCount d \<le> 1)"
        by blast+
      have step: "adminUpdateUser R isUuid isEmail i body d =
           (case ?exists of
              Inl e \<Rightarrow> (Inl e, d)
            | Inr None \<Rightarrow>
                if (?need \<and> ?b \<notin> set (boards d)) \<or> ?clash then (Inl InternalError, d)
                else
                 (Inr (),
                  d\<lparr>memberships := (if ?need then memberships d @ [(?b, i)] else memberships d),
                    users := map (\<lambda>x. if userId x = i
                                       then x\<lparr>defaultBoardId := (if ?need then Some ?b else defaultBoardId x),
                                              email := (case newEmail body of Some e \<Rightarrow> e | None \<Rightarrow> email x),
                                              role := (case newRole body of Some r \<Rightarrow> r | None \<Rightarrow> role x)\<rparr>
                                       else x)
                               (users d)\<rparr>)
            | Inr (Some existing) \<Rightarrow> (Inl (HttpError 400 ''Email already exists''), d))"
        unfolding adminUpdateUser_def Let_def Some option.case
          if_not_P [OF valid] if_not_P [OF g1] if_not_P [OF g2] ..
      show ?thesis
      proof (cases "?exists = Inr None \<and> \<not> ((?need \<and> ?b \<notin> set (boards d)) \<or> ?clash)")
        case False
        then have "snd (adminUpdateUser R isUuid isEmail i body d) = d"
          unfolding step by (auto split: sum.splits option.splits)
        then show ?thesis by simp
      next
        case True
        then have "adminUpdateUser R isUuid isEmail i body d =
           (Inr (),
            d\<lparr>memberships := (if ?need then memberships d @ [(?b, i)] else memberships d),
              users := map (\<lambda>x. if userId x = i
                                 then x\<lparr>defaultBoardId := (if ?need then Some ?b else defaultBoardId x),
                                        email := (case newEmail body of Some e \<Rightarrow> e | None \<Rightarrow> email x),
                                        role := (case newRole body of Some r \<Rightarrow> r | None \<Rightarrow> role x)\<rparr>
                                 else x)
                         (users d)\<rparr>)"
          unfolding step by simp
        then have "users (snd (adminUpdateUser R isUuid isEmail i body d)) =
              map (\<lambda>x. if userId x = i
                                 then x\<lparr>defaultBoardId := (if ?need then Some ?b else defaultBoardId x),
                                        email := (case newEmail body of Some e \<Rightarrow> e | None \<Rightarrow> email x),
                                        role := (case newRole body of Some r \<Rightarrow> r | None \<Rightarrow> role x)\<rparr>
                                 else x)
                         (users d)"
          by simp
        then have "find (\<lambda>x. userId x = i) (users d) = Some u \<and>
            \<not> (isSystem u \<and> newRole body \<noteq> None) \<and>
            \<not> (newRole body = Some MEMBER \<and> role u = ADMIN \<and> adminCount d \<le> 1) \<and>
            users (snd (adminUpdateUser R isUuid isEmail i body d)) =
              map (\<lambda>x. if userId x = i
                    then x\<lparr>defaultBoardId := (\<lambda>x. if ?need then Some ?b else defaultBoardId x) x,
                           email := (case newEmail body of Some e \<Rightarrow> e | None \<Rightarrow> email x),
                           role := (case newRole body of Some r \<Rightarrow> r | None \<Rightarrow> role x)\<rparr>
                    else x) (users d)"
          using Some guards by simp
        then show ?thesis by (intro disjI2 exI)
      qed
    qed
  qed
qed

lemma deleteUser_effect:
  "snd (deleteUser isUuid actor i d) = d \<or>
   (\<exists>u. find (\<lambda>x. userId x = i) (users d) = Some u \<and> \<not> isSystem u \<and> i \<noteq> actor \<and>
        \<not> (role u = ADMIN \<and> adminCount d \<le> 1) \<and>
        users (snd (deleteUser isUuid actor i d)) = filter (\<lambda>x. userId x \<noteq> i) (users d))"
  by (cases "find (\<lambda>x. userId x = i) (users d)") (simp_all add: deleteUser_def)

lemma createUser_effect:
  "snd (createUser isEmail K s newId body d) = d \<or>
   (newId \<notin> set (map userId (users d)) \<and>
    (\<exists>nu. userId nu = newId \<and>
          users (snd (createUser isEmail K s newId body d)) = users d @ [nu]))"
  by (simp add: createUser_def split: option.splits)

lemma adminSetPassword_effect:
  "snd (adminSetPassword isUuid K i pw d) = d \<or>
   users (snd (adminSetPassword isUuid K i pw d))
     = map (\<lambda>u. if userId u = i then u\<lparr>passwordHash := hashPassword K pw, mustChangePassword := True\<rparr> else u)
         (users d)"
  by (simp add: adminSetPassword_def setPassword_def)

lemma setUserBoards_effect:
  "snd (setUserBoards isUuid i bs dflt d) = d \<or>
   users (snd (setUserBoards isUuid i bs dflt d))
     = map (\<lambda>x. if userId x = i then x\<lparr>defaultBoardId := Some dflt\<rparr> else x) (users d)"
  by (cases "find (\<lambda>x. userId x = i) (users d)") (simp_all add: setUserBoards_def Let_def)


lemma map_at_ids:
  assumes "\<And>x. userId (g x) = userId x"
  shows "map userId (map (\<lambda>x. if userId x = i then g x else x) us) = map userId us"
  by (induction us) (simp_all add: assms)

lemma map_at_admin:
  assumes "x \<in> set us" and "role x = ADMIN" and "userId x \<noteq> i \<or> role (g x) = ADMIN"
  shows "\<exists>y \<in> set (map (\<lambda>x. if userId x = i then g x else x) us). role y = ADMIN"
proof -
  let ?h = "\<lambda>x. if userId x = i then g x else x"
  have "?h x \<in> set (map ?h us)" using assms(1) by simp
  moreover have "role (?h x) = ADMIN" using assms(2,3) by auto
  ultimately show ?thesis by blast
qed

lemma map_at_system:
  assumes "x \<in> set us" and "userId x = j" and "role x = r" and "isSystem x"
    and "userId x = i \<longrightarrow> role (g x) = role x"
    and "\<And>x. userId (g x) = userId x \<and> isSystem (g x) = isSystem x"
  shows "\<exists>y \<in> set (map (\<lambda>x. if userId x = i then g x else x) us).
           userId y = j \<and> role y = r \<and> isSystem y"
proof -
  let ?h = "\<lambda>x. if userId x = i then g x else x"
  have "?h x \<in> set (map ?h us)" using assms(1) by simp
  moreover have "userId (?h x) = j \<and> role (?h x) = r \<and> isSystem (?h x)"
    using assms(2-6) by auto
  ultimately show ?thesis by blast
qed

lemma usersOk_refl: "distinct (map userId (users d)) \<Longrightarrow> usersOk d d"
  by (simp add: usersOk_def)

lemma usersOk_same_users:
  "distinct (map userId (users d)) \<Longrightarrow> users d' = users d \<Longrightarrow> usersOk d d'"
  by (simp add: usersOk_def)

lemma usersOk_map_at:
  assumes D: "distinct (map userId (users d))"
    and u: "users d' = map (\<lambda>x. if userId x = i then g x else x) (users d)"
    and g: "\<And>x. userId (g x) = userId x \<and> isSystem (g x) = isSystem x \<and> role (g x) = role x"
  shows "usersOk d d'"
proof -
  have 1: "distinct (map userId (users d'))"
    unfolding u using D by (simp only: map_at_ids [of g, OF g [THEN conjunct1]])
  have 2: "\<exists>x \<in> set (users d'). role x = ADMIN" if "\<exists>x \<in> set (users d). role x = ADMIN"
  proof -
    from that obtain x where "x \<in> set (users d)" "role x = ADMIN" by blast
    then show ?thesis unfolding u using g by (intro map_at_admin [of x]) simp_all
  qed
  have 3: "\<exists>x \<in> set (users d'). userId x = j \<and> role x = r \<and> isSystem x"
    if "\<exists>x \<in> set (users d). userId x = j \<and> role x = r \<and> isSystem x" for j r
  proof -
    from that obtain x where "x \<in> set (users d)" "userId x = j" "role x = r" "isSystem x" by blast
    then show ?thesis unfolding u using g by (intro map_at_system [of x]) simp_all
  qed
  show ?thesis unfolding usersOk_def using 1 2 3 by blast
qed

lemma update_usersOk:
  assumes D: "distinct (map userId (users d))"
  shows "usersOk d (snd (adminUpdateUser R isUuid isEmail i body d))"
proof (rule disjE [OF adminUpdateUser_effect [of R isUuid isEmail i body d]])
  assume "snd (adminUpdateUser R isUuid isEmail i body d) = d"
  then show ?thesis using D by (simp add: usersOk_refl)
next
  let ?d' = "snd (adminUpdateUser R isUuid isEmail i body d)"
  assume "\<exists>u b. find (\<lambda>x. userId x = i) (users d) = Some u \<and>
        \<not> (isSystem u \<and> newRole body \<noteq> None) \<and>
        \<not> (newRole body = Some MEMBER \<and> role u = ADMIN \<and> adminCount d \<le> 1) \<and>
        users ?d' =
          map (\<lambda>x. if userId x = i
                    then x\<lparr>defaultBoardId := b x,
                           email := (case newEmail body of Some e \<Rightarrow> e | None \<Rightarrow> email x),
                           role := (case newRole body of Some r \<Rightarrow> r | None \<Rightarrow> role x)\<rparr>
                    else x) (users d)"
  then obtain u b where f: "find (\<lambda>x. userId x = i) (users d) = Some u"
    and g1: "\<not> (isSystem u \<and> newRole body \<noteq> None)"
    and g2: "\<not> (newRole body = Some MEMBER \<and> role u = ADMIN \<and> adminCount d \<le> 1)"
    and us: "users ?d' =
          map (\<lambda>x. if userId x = i
                    then x\<lparr>defaultBoardId := b x,
                           email := (case newEmail body of Some e \<Rightarrow> e | None \<Rightarrow> email x),
                           role := (case newRole body of Some r \<Rightarrow> r | None \<Rightarrow> role x)\<rparr>
                    else x) (users d)"
    by blast
  let ?g = "\<lambda>x. x\<lparr>defaultBoardId := b x,
                    email := (case newEmail body of Some e \<Rightarrow> e | None \<Rightarrow> email x),
                    role := (case newRole body of Some r \<Rightarrow> r | None \<Rightarrow> role x)\<rparr>"
  have keep: "\<And>x. userId (?g x) = userId x \<and> isSystem (?g x) = isSystem x" by simp
  have rg: "role (?g x) = (case newRole body of Some r \<Rightarrow> r | None \<Rightarrow> role x)" for x by simp
  have uniq: "x = u" if "x \<in> set (users d)" "userId x = i" for x
    using find_user_unique [OF D f that] .
  have 1: "distinct (map userId (users ?d'))"
    unfolding us using D by (simp only: map_at_ids [of ?g, OF keep [THEN conjunct1]])
  have 2: "\<exists>x \<in> set (users ?d'). role x = ADMIN" if a: "\<exists>x \<in> set (users d). role x = ADMIN"
  proof -
    from a obtain x0 where x0: "x0 \<in> set (users d)" "role x0 = ADMIN" by blast
    have "\<exists>x \<in> set (users d). role x = ADMIN \<and> (userId x \<noteq> i \<or> role (?g x) = ADMIN)"
    proof (cases "newRole body = Some MEMBER")
      case False
      then have "role (?g x0) = ADMIN" using x0 by (cases "newRole body"; cases "the (newRole body)") auto
      then show ?thesis using x0 by blast
    next
      case True
      show ?thesis
      proof (cases "role u = ADMIN")
        case True
        then have "2 \<le> length (filter (\<lambda>u. role u = ADMIN) (users d))"
          using g2 \<open>newRole body = Some MEMBER\<close> by (simp add: adminCount_def)
        then show ?thesis using other_admin [OF D, of i] by blast
      next
        case False
        then have "userId x0 \<noteq> i" using uniq x0 by blast
        then show ?thesis using x0 by blast
      qed
    qed
    then obtain x where "x \<in> set (users d)" "role x = ADMIN" "userId x \<noteq> i \<or> role (?g x) = ADMIN"
      by blast
    then show ?thesis unfolding us by (rule map_at_admin)
  qed
  have 3: "\<exists>x \<in> set (users ?d'). userId x = j \<and> role x = r \<and> isSystem x"
    if "\<exists>x \<in> set (users d). userId x = j \<and> role x = r \<and> isSystem x" for j r
  proof -
    from that obtain x where x: "x \<in> set (users d)" "userId x = j" "role x = r" "isSystem x" by blast
    have "userId x = i \<longrightarrow> role (?g x) = role x"
    proof
      assume "userId x = i"
      then have "x = u" using uniq x(1) by blast
      then have "newRole body = None" using g1 x(4) by simp
      then show "role (?g x) = role x" by simp
    qed
    then show ?thesis unfolding us using x keep by (intro map_at_system [of x]) simp_all
  qed
  show ?thesis unfolding usersOk_def using 1 2 3 by blast
qed


lemma delete_usersOk:
  assumes D: "distinct (map userId (users d))"
  shows "usersOk d (snd (deleteUser isUuid actor i d))"
proof (rule disjE [OF deleteUser_effect [of isUuid actor i d]])
  assume "snd (deleteUser isUuid actor i d) = d"
  then show ?thesis using D by (simp add: usersOk_refl)
next
  let ?d' = "snd (deleteUser isUuid actor i d)"
  assume "\<exists>u. find (\<lambda>x. userId x = i) (users d) = Some u \<and> \<not> isSystem u \<and> i \<noteq> actor \<and>
        \<not> (role u = ADMIN \<and> adminCount d \<le> 1) \<and>
        users ?d' = filter (\<lambda>x. userId x \<noteq> i) (users d)"
  then obtain u where f: "find (\<lambda>x. userId x = i) (users d) = Some u"
    and g1: "\<not> isSystem u"
    and g2: "\<not> (role u = ADMIN \<and> adminCount d \<le> 1)"
    and us: "users ?d' = filter (\<lambda>x. userId x \<noteq> i) (users d)"
    by blast
  have uniq: "x = u" if "x \<in> set (users d)" "userId x = i" for x
    using find_user_unique [OF D f that] .
  have 1: "distinct (map userId (users ?d'))"
    unfolding us using D by (rule distinct_map_filter)
  have 2: "\<exists>x \<in> set (users ?d'). role x = ADMIN" if a: "\<exists>x \<in> set (users d). role x = ADMIN"
  proof -
    from a obtain x0 where x0: "x0 \<in> set (users d)" "role x0 = ADMIN" by blast
    have "\<exists>x \<in> set (users d). role x = ADMIN \<and> userId x \<noteq> i"
    proof (cases "role u = ADMIN")
      case True
      then have "2 \<le> length (filter (\<lambda>u. role u = ADMIN) (users d))"
        using g2 by (simp add: adminCount_def)
      then show ?thesis using other_admin [OF D, of i] by blast
    next
      case False
      then have "userId x0 \<noteq> i" using uniq x0 by blast
      then show ?thesis using x0 by blast
    qed
    then show ?thesis unfolding us by auto
  qed
  have 3: "\<exists>x \<in> set (users ?d'). userId x = j \<and> role x = r \<and> isSystem x"
    if "\<exists>x \<in> set (users d). userId x = j \<and> role x = r \<and> isSystem x" for j r
  proof -
    from that obtain x where x: "x \<in> set (users d)" "userId x = j" "role x = r" "isSystem x" by blast
    have "userId x \<noteq> i" using uniq [OF x(1)] g1 x(4) by blast
    then have "x \<in> set (users ?d')" unfolding us using x(1) by simp
    then show ?thesis using x by blast
  qed
  show ?thesis unfolding usersOk_def using 1 2 3 by blast
qed

lemma create_usersOk:
  assumes D: "distinct (map userId (users d))"
  shows "usersOk d (snd (createUser isEmail K s newId body d))"
proof (rule disjE [OF createUser_effect [of isEmail K s newId body d]])
  assume "snd (createUser isEmail K s newId body d) = d"
  then show ?thesis using D by (simp add: usersOk_refl)
next
  let ?d' = "snd (createUser isEmail K s newId body d)"
  assume "newId \<notin> set (map userId (users d)) \<and>
    (\<exists>nu. userId nu = newId \<and> users ?d' = users d @ [nu])"
  then obtain nu where n: "newId \<notin> set (map userId (users d))" "userId nu = newId"
    and us: "users ?d' = users d @ [nu]" by blast
  have 1: "distinct (map userId (users ?d'))" unfolding us using D n by simp
  have 2: "set (users d) \<subseteq> set (users ?d')" unfolding us by auto
  show ?thesis unfolding usersOk_def using 1 2 by blast
qed

lemma setPassword_usersOk:
  assumes D: "distinct (map userId (users d))"
  shows "usersOk d (snd (adminSetPassword isUuid K i pw d))"
proof (rule disjE [OF adminSetPassword_effect [of isUuid K i pw d]])
  assume "snd (adminSetPassword isUuid K i pw d) = d"
  then show ?thesis using D by (simp add: usersOk_refl)
next
  assume "users (snd (adminSetPassword isUuid K i pw d))
     = map (\<lambda>u. if userId u = i then u\<lparr>passwordHash := hashPassword K pw, mustChangePassword := True\<rparr> else u)
         (users d)"
  then show ?thesis by (rule usersOk_map_at [OF D]) simp
qed

lemma setUserBoards_usersOk:
  assumes D: "distinct (map userId (users d))"
  shows "usersOk d (snd (setUserBoards isUuid i bs dflt d))"
proof (rule disjE [OF setUserBoards_effect [of isUuid i bs dflt d]])
  assume "snd (setUserBoards isUuid i bs dflt d) = d"
  then show ?thesis using D by (simp add: usersOk_refl)
next
  assume "users (snd (setUserBoards isUuid i bs dflt d))
     = map (\<lambda>x. if userId x = i then x\<lparr>defaultBoardId := Some dflt\<rparr> else x) (users d)"
  then show ?thesis by (rule usersOk_map_at [OF D]) simp
qed

lemma adminRoute_usersOk:
  assumes D: "distinct (map userId (users d))"
  shows "usersOk d (snd (adminRoute R isUuid isEmail K sid req d))"
proof (cases "adminGate (loadSession d sid) d")
  case (Inl e)
  then show ?thesis using D by (simp add: adminRoute_def usersOk_refl)
next
  case (Inr actor)
  show ?thesis
  proof (cases req)
    case (CreateUser newId body)
    then show ?thesis using Inr create_usersOk [OF D] by (simp add: adminRoute_def)
  next
    case (SetPassword i pw)
    then show ?thesis using Inr setPassword_usersOk [OF D] by (simp add: adminRoute_def)
  next
    case (UpdateUser i body)
    then show ?thesis using Inr update_usersOk [OF D] by (simp add: adminRoute_def)
  next
    case (DeleteUser i)
    then show ?thesis using Inr delete_usersOk [OF D] by (simp add: adminRoute_def)
  next
    case (SetUserBoards i bs dflt)
    then show ?thesis using Inr setUserBoards_usersOk [OF D] by (simp add: adminRoute_def)
  qed
qed

lemma usersOk_trans:
  assumes "usersOk a b" and "usersOk b c"
  shows "usersOk a c"
proof -
  have 1: "distinct (map userId (users c))" using assms(2) by (simp add: usersOk_def)
  have ab: "(\<exists>x \<in> set (users a). role x = ADMIN) \<longrightarrow> (\<exists>x \<in> set (users b). role x = ADMIN)"
    using assms(1) by (simp add: usersOk_def)
  have bc: "(\<exists>x \<in> set (users b). role x = ADMIN) \<longrightarrow> (\<exists>x \<in> set (users c). role x = ADMIN)"
    using assms(2) by (simp add: usersOk_def)
  have sab: "\<And>j r. (\<exists>x \<in> set (users a). userId x = j \<and> role x = r \<and> isSystem x) \<longrightarrow>
             (\<exists>x \<in> set (users b). userId x = j \<and> role x = r \<and> isSystem x)"
    using assms(1) by (simp add: usersOk_def)
  have sbc: "\<And>j r. (\<exists>x \<in> set (users b). userId x = j \<and> role x = r \<and> isSystem x) \<longrightarrow>
             (\<exists>x \<in> set (users c). userId x = j \<and> role x = r \<and> isSystem x)"
    using assms(2) by (simp add: usersOk_def)
  have 2: "(\<exists>x \<in> set (users a). role x = ADMIN) \<longrightarrow> (\<exists>x \<in> set (users c). role x = ADMIN)"
    using ab bc by blast
  have 3: "\<And>j r. (\<exists>x \<in> set (users a). userId x = j \<and> role x = r \<and> isSystem x) \<longrightarrow>
             (\<exists>x \<in> set (users c). userId x = j \<and> role x = r \<and> isSystem x)"
    using sab sbc by blast
  show ?thesis unfolding usersOk_def using 1 2 3 by blast
qed

lemma adminRun_usersOk:
  "distinct (map userId (users d)) \<Longrightarrow> usersOk d (adminRun R isUuid isEmail K rs d)"
proof (induction rs arbitrary: d)
  case Nil
  then show ?case by (simp add: usersOk_refl)
next
  case (Cons r rs)
  let ?d1 = "snd (adminRoute R isUuid isEmail K (fst r) (snd r) d)"
  have s: "usersOk d ?d1" using Cons.prems by (rule adminRoute_usersOk)
  then have "distinct (map userId (users ?d1))" by (simp add: usersOk_def)
  then have "usersOk ?d1 (adminRun R isUuid isEmail K rs ?d1)" by (rule Cons.IH)
  with s show ?case by (simp add: usersOk_trans)
qed


text \<open>
  Claim C6. In a state whose target user exists and whose request is well-formed:
  demoting the only ADMIN to MEMBER and deleting the only ADMIN both end in a 400 domain
  error and leave the state unchanged; a role change of the system user is refused with
  400 for any requested role, and its deletion is refused with 400, however many admins
  there are; through any sequence of admin user-management requests the system user
  keeps its row and role, and a state that has an ADMIN keeps having one.
\<close>

theorem last_admin_protection:
  assumes D: "distinct (map userId (users d))"
    and t: "find (\<lambda>x. userId x = i) (users d) = Some u"
    and v: "isUuid i" "case newEmail body of None \<Rightarrow> True | Some e \<Rightarrow> isEmail e"
  shows
   "(role u = ADMIN \<and> adminCount d \<le> 1 \<and> newRole body = Some MEMBER \<longrightarrow>
       adminUpdateUser R isUuid isEmail i body d \<in>
         {(Inl (HttpError 400 ''Cannot change role for system admin''), d),
          (Inl (HttpError 400 ''Cannot demote last admin''), d)}) \<and>
    (role u = ADMIN \<and> adminCount d \<le> 1 \<longrightarrow>
       deleteUser isUuid actor i d \<in>
         {(Inl (HttpError 400 ''Cannot delete yourself''), d),
          (Inl (HttpError 400 ''Cannot delete system admin''), d),
          (Inl (HttpError 400 ''Cannot delete last admin''), d)}) \<and>
    (isSystem u \<and> newRole body \<noteq> None \<longrightarrow>
       adminUpdateUser R isUuid isEmail i body d
         = (Inl (HttpError 400 ''Cannot change role for system admin''), d)) \<and>
    (isSystem u \<longrightarrow>
       deleteUser isUuid actor i d \<in>
         {(Inl (HttpError 400 ''Cannot delete yourself''), d),
          (Inl (HttpError 400 ''Cannot delete system admin''), d)}) \<and>
    (isSystem u \<longrightarrow>
       (\<forall>rs. \<exists>u' \<in> set (users (adminRun R isUuid isEmail K rs d)).
          userId u' = i \<and> role u' = role u \<and> isSystem u')) \<and>
    (1 \<le> adminCount d \<longrightarrow> (\<forall>rs. 1 \<le> adminCount (adminRun R isUuid isEmail K rs d)))"
proof -
  have valid: "\<not> (\<not> isUuid i \<or> (case newEmail body of None \<Rightarrow> False | Some e \<Rightarrow> \<not> isEmail e))"
    using v by (cases "newEmail body") simp_all
  have upd_sys: "adminUpdateUser R isUuid isEmail i body d
         = (Inl (HttpError 400 ''Cannot change role for system admin''), d)"
    if "isSystem u" "newRole body \<noteq> None"
    using that valid t by (simp add: adminUpdateUser_def)
  have upd_last: "adminUpdateUser R isUuid isEmail i body d
         = (Inl (HttpError 400 ''Cannot demote last admin''), d)"
    if "\<not> isSystem u" "role u = ADMIN" "adminCount d \<le> 1" "newRole body = Some MEMBER"
    using that valid t by (simp add: adminUpdateUser_def)
  have del_self: "deleteUser isUuid actor i d = (Inl (HttpError 400 ''Cannot delete yourself''), d)"
    if "i = actor"
    using that v(1) by (simp add: deleteUser_def)
  have del_sys: "deleteUser isUuid actor i d = (Inl (HttpError 400 ''Cannot delete system admin''), d)"
    if "i \<noteq> actor" "isSystem u"
    using that v(1) t by (simp add: deleteUser_def)
  have del_last: "deleteUser isUuid actor i d = (Inl (HttpError 400 ''Cannot delete last admin''), d)"
    if "i \<noteq> actor" "\<not> isSystem u" "role u = ADMIN" "adminCount d \<le> 1"
    using that v(1) t by (simp add: deleteUser_def)
  have 1: "role u = ADMIN \<and> adminCount d \<le> 1 \<and> newRole body = Some MEMBER \<longrightarrow>
       adminUpdateUser R isUuid isEmail i body d \<in>
         {(Inl (HttpError 400 ''Cannot change role for system admin''), d),
          (Inl (HttpError 400 ''Cannot demote last admin''), d)}"
  proof (cases "isSystem u")
    case True
    then show ?thesis using upd_sys by simp
  next
    case False
    then show ?thesis using upd_last by simp
  qed
  have 2: "role u = ADMIN \<and> adminCount d \<le> 1 \<longrightarrow>
       deleteUser isUuid actor i d \<in>
         {(Inl (HttpError 400 ''Cannot delete yourself''), d),
          (Inl (HttpError 400 ''Cannot delete system admin''), d),
          (Inl (HttpError 400 ''Cannot delete last admin''), d)}"
  proof (cases "i = actor")
    case True
    then show ?thesis using del_self by simp
  next
    case ne: False
    show ?thesis
    proof (cases "isSystem u")
      case True
      then show ?thesis using del_sys ne by simp
    next
      case False
      then show ?thesis using del_last ne by simp
    qed
  qed
  have 3: "isSystem u \<and> newRole body \<noteq> None \<longrightarrow>
       adminUpdateUser R isUuid isEmail i body d
         = (Inl (HttpError 400 ''Cannot change role for system admin''), d)"
    using upd_sys by simp
  have 4: "isSystem u \<longrightarrow>
       deleteUser isUuid actor i d \<in>
         {(Inl (HttpError 400 ''Cannot delete yourself''), d),
          (Inl (HttpError 400 ''Cannot delete system admin''), d)}"
  proof (cases "i = actor")
    case True
    then show ?thesis using del_self by simp
  next
    case False
    then show ?thesis using del_sys by simp
  qed
  have mem: "u \<in> set (users d)" "userId u = i" using t by (auto simp: find_Some_iff)
  have ok: "usersOk d (adminRun R isUuid isEmail K rs d)" for rs
    using D by (rule adminRun_usersOk)
  have 5: "isSystem u \<longrightarrow>
       (\<forall>rs. \<exists>u' \<in> set (users (adminRun R isUuid isEmail K rs d)).
          userId u' = i \<and> role u' = role u \<and> isSystem u')"
  proof (intro impI allI)
    fix rs
    assume "isSystem u"
    then have "\<exists>x \<in> set (users d). userId x = i \<and> role x = role u \<and> isSystem x"
      using mem by blast
    moreover have "(\<exists>x \<in> set (users d). userId x = i \<and> role x = role u \<and> isSystem x) \<longrightarrow>
        (\<exists>x \<in> set (users (adminRun R isUuid isEmail K rs d)). userId x = i \<and> role x = role u \<and> isSystem x)"
      using ok [of rs] unfolding usersOk_def by blast
    ultimately show "\<exists>u' \<in> set (users (adminRun R isUuid isEmail K rs d)).
          userId u' = i \<and> role u' = role u \<and> isSystem u'"
      by blast
  qed
  have 6: "1 \<le> adminCount d \<longrightarrow> (\<forall>rs. 1 \<le> adminCount (adminRun R isUuid isEmail K rs d))"
  proof (intro impI allI)
    fix rs
    assume "1 \<le> adminCount d"
    then have "\<exists>x \<in> set (users d). role x = ADMIN" by (simp only: adminCount_pos)
    moreover have "(\<exists>x \<in> set (users d). role x = ADMIN) \<longrightarrow>
        (\<exists>x \<in> set (users (adminRun R isUuid isEmail K rs d)). role x = ADMIN)"
      using ok [of rs] unfolding usersOk_def by blast
    ultimately have "\<exists>x \<in> set (users (adminRun R isUuid isEmail K rs d)). role x = ADMIN" by blast
    then show "1 \<le> adminCount (adminRun R isUuid isEmail K rs d)" by (simp only: adminCount_pos)
  qed
  show ?thesis using 1 2 3 4 5 6 by blast
qed


theorem last_admin_protection_witness:
  "adminUpdateUser demoPlatform (\<lambda>_. True) (\<lambda>_. True) ''u1'' \<lparr>newEmail = None, newRole = Some MEMBER\<rparr> authDemo
     = (Inl (HttpError 400 ''Cannot change role for system admin''), authDemo) \<and>
   deleteUser (\<lambda>_. True) ''u1'' ''u1'' authDemo \<in>
     {(Inl (HttpError 400 ''Cannot delete yourself''), authDemo),
      (Inl (HttpError 400 ''Cannot delete system admin''), authDemo)} \<and>
   (\<exists>u' \<in> set (users (adminRun demoPlatform (\<lambda>_. True) (\<lambda>_. True) demoCrypto
                        [(''s1'', DeleteUser ''u1''),
                         (''s1'', UpdateUser ''u1'' \<lparr>newEmail = None, newRole = Some MEMBER\<rparr>),
                         (''s1'', UpdateUser ''u2'' \<lparr>newEmail = None, newRole = Some ADMIN\<rparr>),
                         (''s2'', DeleteUser ''u1'')]
                        authDemo)).
      userId u' = ''u1'' \<and> role u' = ADMIN \<and> isSystem u') \<and>
   adminUpdateUser demoPlatform (\<lambda>_. True) (\<lambda>_. True) ''u1'' \<lparr>newEmail = None, newRole = Some MEMBER\<rparr> boardDemo
     \<in> {(Inl (HttpError 400 ''Cannot change role for system admin''), boardDemo),
        (Inl (HttpError 400 ''Cannot demote last admin''), boardDemo)} \<and>
   deleteUser (\<lambda>_. True) ''u2'' ''u1'' boardDemo \<in>
     {(Inl (HttpError 400 ''Cannot delete yourself''), boardDemo),
      (Inl (HttpError 400 ''Cannot delete system admin''), boardDemo),
      (Inl (HttpError 400 ''Cannot delete last admin''), boardDemo)} \<and>
   1 \<le> adminCount (adminRun demoPlatform (\<lambda>_. True) (\<lambda>_. True) demoCrypto
                      [(''s1'', UpdateUser ''u2'' \<lparr>newEmail = None, newRole = Some ADMIN\<rparr>),
                       (''s2'', DeleteUser ''u1''),
                       (''s2'', UpdateUser ''u2'' \<lparr>newEmail = None, newRole = Some MEMBER\<rparr>)]
                      boardDemo)"
proof -
  let ?root = "(mkUser ''u1'' ''admin@local'' ''Root'' ADMIN)
           \<lparr>isSystem := True, passwordHash := ''h:root-password'', totpSecret := Some ''111111''\<rparr>"
  let ?body = "\<lparr>newEmail = None, newRole = Some MEMBER\<rparr>"
  have aD: "distinct (map userId (users authDemo))"
    by (simp add: authDemo_tables mkUser_def)
  have at: "find (\<lambda>x. userId x = ''u1'') (users authDemo) = Some ?root"
    by (simp add: authDemo_tables mkUser_def)
  have ar: "role ?root = ADMIN" "isSystem ?root" by (simp_all add: mkUser_def)
  have ac: "adminCount authDemo \<le> 1" "1 \<le> adminCount authDemo"
    by (simp_all add: adminCount_def authDemo_tables mkUser_def)
  have bu: "users boardDemo
      = [mkUser ''u1'' ''admin@local'' ''Root'' ADMIN, mkUser ''u2'' ''ann@x.io'' ''Ann'' MEMBER]"
    by (simp add: boardDemo_def)
  have bD: "distinct (map userId (users boardDemo))"
    by (simp add: bu mkUser_def)
  have bt: "find (\<lambda>x. userId x = ''u1'') (users boardDemo)
      = Some (mkUser ''u1'' ''admin@local'' ''Root'' ADMIN)"
    by (simp add: bu mkUser_def)
  have br: "role (mkUser ''u1'' ''admin@local'' ''Root'' ADMIN) = ADMIN"
    by (simp add: mkUser_def)
  have bc: "adminCount boardDemo \<le> 1" "1 \<le> adminCount boardDemo"
    by (simp_all add: adminCount_def bu mkUser_def)
  have nb: "newRole ?body = Some MEMBER" "newRole ?body \<noteq> None"
    "case newEmail ?body of None \<Rightarrow> True | Some e \<Rightarrow> (\<lambda>_. True) e"
    by simp_all
  note A = last_admin_protection [where R = demoPlatform and isUuid = "\<lambda>_. True" and isEmail = "\<lambda>_. True"
      and body = ?body and actor = "''u1''" and K = demoCrypto, OF aD at TrueI nb(3)]
  note B = last_admin_protection [where R = demoPlatform and isUuid = "\<lambda>_. True" and isEmail = "\<lambda>_. True"
      and body = ?body and actor = "''u2''" and K = demoCrypto, OF bD bt TrueI nb(3)]
  have 1: "adminUpdateUser demoPlatform (\<lambda>_. True) (\<lambda>_. True) ''u1'' ?body authDemo
     = (Inl (HttpError 400 ''Cannot change role for system admin''), authDemo)"
    using A [THEN conjunct2, THEN conjunct2, THEN conjunct1] ar(2) nb(2) by blast
  have 2: "deleteUser (\<lambda>_. True) ''u1'' ''u1'' authDemo \<in>
     {(Inl (HttpError 400 ''Cannot delete yourself''), authDemo),
      (Inl (HttpError 400 ''Cannot delete system admin''), authDemo)}"
    using A [THEN conjunct2, THEN conjunct2, THEN conjunct2, THEN conjunct1] ar(2) by blast
  have 3: "\<forall>rs. \<exists>u' \<in> set (users (adminRun demoPlatform (\<lambda>_. True) (\<lambda>_. True) demoCrypto rs authDemo)).
      userId u' = ''u1'' \<and> role u' = ADMIN \<and> isSystem u'"
    using A [THEN conjunct2, THEN conjunct2, THEN conjunct2, THEN conjunct2, THEN conjunct1] ar
    by simp
  have 4: "adminUpdateUser demoPlatform (\<lambda>_. True) (\<lambda>_. True) ''u1'' ?body boardDemo
     \<in> {(Inl (HttpError 400 ''Cannot change role for system admin''), boardDemo),
        (Inl (HttpError 400 ''Cannot demote last admin''), boardDemo)}"
    using B [THEN conjunct1] br bc(1) nb(1) by blast
  have 5: "deleteUser (\<lambda>_. True) ''u2'' ''u1'' boardDemo \<in>
     {(Inl (HttpError 400 ''Cannot delete yourself''), boardDemo),
      (Inl (HttpError 400 ''Cannot delete system admin''), boardDemo),
      (Inl (HttpError 400 ''Cannot delete last admin''), boardDemo)}"
    using B [THEN conjunct2, THEN conjunct1] br bc(1) by blast
  have 6: "\<forall>rs. 1 \<le> adminCount (adminRun demoPlatform (\<lambda>_. True) (\<lambda>_. True) demoCrypto rs boardDemo)"
    using B [THEN conjunct2, THEN conjunct2, THEN conjunct2, THEN conjunct2, THEN conjunct2] bc(2)
    by blast
  show ?thesis using 1 2 3 [rule_format] 4 5 6 [rule_format] by blast
qed

end
